theory Spec2Isabelle
  imports Complex_Main
begin

section \<open>Cell values\<close>

text \<open>
  Every table of the program is a pandas DataFrame of float64 cells.  A cell is modelled
  as a real number or one of the three special floats; rounding is not modelled (a finite
  cell carries the exact real), but the special values and the way they arise and
  propagate are: division by zero gives an infinity, an undefined cell is \<open>NaN\<close>, and a
  comparison with \<open>NaN\<close> is false.  Signed zeros are not distinguished.
\<close>

datatype val = Num real | PosInf | NegInf | NaN

definition inf_of :: "real \<Rightarrow> val" where
  "inf_of s = (if 0 < s then PosInf else if s < 0 then NegInf else NaN)"

fun fadd :: "val \<Rightarrow> val \<Rightarrow> val" where
  "fadd (Num a) (Num b) = Num (a + b)"
| "fadd NaN _ = NaN"
| "fadd _ NaN = NaN"
| "fadd PosInf NegInf = NaN"
| "fadd NegInf PosInf = NaN"
| "fadd PosInf _ = PosInf"
| "fadd _ PosInf = PosInf"
| "fadd NegInf _ = NegInf"
| "fadd _ NegInf = NegInf"

fun fneg :: "val \<Rightarrow> val" where
  "fneg (Num a) = Num (- a)"
| "fneg PosInf = NegInf"
| "fneg NegInf = PosInf"
| "fneg NaN = NaN"

definition fsub :: "val \<Rightarrow> val \<Rightarrow> val" where
  "fsub x y = fadd x (fneg y)"

fun fmul :: "val \<Rightarrow> val \<Rightarrow> val" where
  "fmul (Num a) (Num b) = Num (a * b)"
| "fmul NaN _ = NaN"
| "fmul _ NaN = NaN"
| "fmul PosInf (Num b) = inf_of b"
| "fmul (Num a) PosInf = inf_of a"
| "fmul NegInf (Num b) = inf_of (- b)"
| "fmul (Num a) NegInf = inf_of (- a)"
| "fmul PosInf PosInf = PosInf"
| "fmul NegInf NegInf = PosInf"
| "fmul PosInf NegInf = NegInf"
| "fmul NegInf PosInf = NegInf"

fun fdiv :: "val \<Rightarrow> val \<Rightarrow> val" where
  "fdiv (Num a) (Num b) = (if b = 0 then inf_of a else Num (a / b))"
| "fdiv NaN _ = NaN"
| "fdiv _ NaN = NaN"
| "fdiv (Num a) PosInf = Num 0"
| "fdiv (Num a) NegInf = Num 0"
| "fdiv PosInf (Num b) = (if b < 0 then NegInf else PosInf)"
| "fdiv NegInf (Num b) = (if b < 0 then PosInf else NegInf)"
| "fdiv _ _ = NaN"

text \<open>The float comparisons \<open><\<close> and \<open><=\<close>: false as soon as one side is \<open>NaN\<close>.\<close>

fun flt :: "val \<Rightarrow> val \<Rightarrow> bool" where
  "flt NaN _ = False"
| "flt _ NaN = False"
| "flt (Num a) (Num b) = (a < b)"
| "flt (Num a) PosInf = True"
| "flt (Num a) NegInf = False"
| "flt PosInf _ = False"
| "flt NegInf NegInf = False"
| "flt NegInf _ = True"

definition fle :: "val \<Rightarrow> val \<Rightarrow> bool" where
  "fle x y = (flt x y \<or> (x = y \<and> x \<noteq> NaN))"

text \<open>The number a finite cell holds, and the cells that are a finite number or missing.\<close>

fun num_of :: "val \<Rightarrow> real" where
  "num_of (Num r) = r"
| "num_of _ = 0"

fun finite_val :: "val \<Rightarrow> bool" where
  "finite_val (Num a) = True"
| "finite_val _ = False"

fun finite_or_nan :: "val \<Rightarrow> bool" where
  "finite_or_nan (Num r) = True"
| "finite_or_nan NaN = True"
| "finite_or_nan _ = False"

text \<open>A sum that skips \<open>NaN\<close> cells (pandas \<open>sum\<close> with its default \<open>skipna=True\<close>).\<close>

definition nansum :: "val list \<Rightarrow> val" where
  "nansum xs = foldr fadd (filter (\<lambda>x. x \<noteq> NaN) xs) (Num 0)"

text \<open>A cell is a finite number within \<open>tol\<close> of \<open>c\<close>.\<close>

definition within_tol :: "val \<Rightarrow> real \<Rightarrow> real \<Rightarrow> bool" where
  "within_tol x c tol = (case x of Num r \<Rightarrow> \<bar>r - c\<bar> \<le> tol | _ \<Rightarrow> False)"

section \<open>Tables\<close>

text \<open>
  A DataFrame is its index and its rows: a list of (timestamp, row) pairs, the row holding
  one cell per asset column, in the fixed column order shared by all tables of a run.  A
  timestamp is a day number (days since 1970-01-01).
\<close>

type_synonym timestamp = int
type_synonym 'a frame = "(timestamp \<times> 'a list) list"

definition ncols :: "'a frame \<Rightarrow> nat" where
  "ncols F = (case F of [] \<Rightarrow> 0 | (t, r) # _ \<Rightarrow> length r)"

definition cell :: "'a frame \<Rightarrow> nat \<Rightarrow> nat \<Rightarrow> 'a" where
  "cell F t a = snd (F ! t) ! a"

text \<open>
  pandas works column by column for the operations that run down the time axis
  (\<open>pct_change\<close>, \<open>rolling\<close>, \<open>cumprod\<close>).  \<open>map_cols\<close> applies such an operation to
  every column of a table and puts the rows together again under the same index.
\<close>

definition col :: "nat \<Rightarrow> 'a frame \<Rightarrow> 'a list" where
  "col c F = map (\<lambda>(t, r). r ! c) F"

definition map_cols :: "('a list \<Rightarrow> 'b list) \<Rightarrow> 'a frame \<Rightarrow> 'b frame" where
  "map_cols f F =
     (let cs = map (\<lambda>c. f (col c F)) [0..<ncols F]
      in map (\<lambda>i. (fst (F ! i), map (\<lambda>c. c ! i) cs)) [0..<length F])"

definition map_rows :: "('a list \<Rightarrow> 'b list) \<Rightarrow> 'a frame \<Rightarrow> 'b frame" where
  "map_rows f F = map (\<lambda>(t, r). (t, f r)) F"

text \<open>Cell-by-cell arithmetic of two tables over the same index and columns.\<close>

definition frame_map2 :: "(val \<Rightarrow> val \<Rightarrow> val) \<Rightarrow> val frame \<Rightarrow> val frame \<Rightarrow> val frame" where
  "frame_map2 f A B = map2 (\<lambda>(t, a) (t', b). (t, map2 f a b)) A B"

section \<open>signal\_generator.py\<close>

text \<open>
  \<open>SignalGeneratorConfig.params\<close> is the dictionary of keyword options.  The constructor of
  a signal generator raises when a required option is missing; \<open>_prices_to_signal\<close> looks
  the option up again.
\<close>

type_synonym params = "string \<rightharpoonup> nat"

datatype error = Exception "string list" | KeyError string

definition required_params :: "string list" where
  "required_params = [''rolling_avg_days'']"

definition validate_config_params :: "params \<Rightarrow> error + unit" where
  "validate_config_params cfg =
     (let missing_params = filter (\<lambda>k. cfg k = None) required_params
      in if missing_params \<noteq> [] then Inl (Exception missing_params) else Inr ())"

definition MomentumSignalGenerator :: "params \<Rightarrow> error + params" where
  "MomentumSignalGenerator cfg =
     (case validate_config_params cfg of Inl e \<Rightarrow> Inl e | Inr _ \<Rightarrow> Inr cfg)"

text \<open>
  \<open>pct_change()\<close> on one column, as pandas computes it in the versions that accept the
  frequency string \<open>'1M'\<close>: missing prices are filled forward from the last known price,
  then \<open>data / data.shift(1) - 1\<close>.
\<close>

fun ffill_from :: "val \<Rightarrow> val list \<Rightarrow> val list" where
  "ffill_from prev [] = []"
| "ffill_from prev (x # xs) = (let y = (if x = NaN then prev else x) in y # ffill_from y xs)"

definition shift1 :: "val list \<Rightarrow> val list" where
  "shift1 xs = (if xs = [] then [] else NaN # butlast xs)"

definition pct_change_col :: "val list \<Rightarrow> val list" where
  "pct_change_col xs =
     (let d = ffill_from NaN xs in map2 (\<lambda>x y. fsub (fdiv x y) (Num 1)) d (shift1 d))"

definition pct_change :: "val frame \<Rightarrow> val frame" where
  "pct_change F = map_cols pct_change_col F"

text \<open>
  \<open>rolling('<n>d').mean()\<close> on one column.  The window of row \<open>i\<close> is duration based: the
  rows \<open>j \<le> i\<close> whose timestamp lies in \<open>(t\<^sub>i - n days, t\<^sub>i]\<close>.  Infinite cells are
  treated as missing, and for a duration window \<open>min_periods\<close> defaults to 1: the mean is
  taken over the finite cells of the window and is \<open>NaN\<close> only when there is none.
\<close>

definition window_mean :: "val list \<Rightarrow> val" where
  "window_mean ys =
     (let zs = filter finite_val ys
      in if zs = [] then NaN else fdiv (foldr fadd zs (Num 0)) (Num (real (length zs))))"

definition rolling_mean_col :: "nat \<Rightarrow> timestamp list \<Rightarrow> val list \<Rightarrow> val list" where
  "rolling_mean_col n ts xs =
     map (\<lambda>i. window_mean (map (\<lambda>j. xs ! j) (filter (\<lambda>j. ts ! i - int n < ts ! j) [0..<Suc i])))
       [0..<length xs]"

definition prices_to_signal :: "params \<Rightarrow> val frame \<Rightarrow> error + val frame" where
  "prices_to_signal cfg prices_df =
     (case cfg ''rolling_avg_days'' of
        None \<Rightarrow> Inl (KeyError ''rolling_avg_days'')
      | Some n \<Rightarrow>
          Inr (let d = pct_change prices_df in map_cols (rolling_mean_col n (map fst d)) d))"

definition generate :: "params \<Rightarrow> val frame \<Rightarrow> error + val frame" where
  "generate cfg prices_df = prices_to_signal cfg prices_df"

text \<open>A price cell as the loader delivers it: missing, or a finite number other than zero.\<close>

fun valid_price :: "val \<Rightarrow> bool" where
  "valid_price (Num p) = (p \<noteq> 0)"
| "valid_price NaN = True"
| "valid_price _ = False"

definition valid_prices :: "val frame \<Rightarrow> bool" where
  "valid_prices P = list_all (\<lambda>c. list_all valid_price (col c P)) [0..<ncols P]"

section \<open>portfolio\_generator.py: ranking a row\<close>

text \<open>
  \<open>rank(axis=1, ascending=False, method='first')\<close> on one row: the columns holding a
  defined value are sorted by descending value with a stable sort, so that equal values
  keep their column order, and a column's rank is its position in that order, counted
  from 1.  A \<open>NaN\<close> column keeps \<open>NaN\<close> as its rank.
\<close>

fun insert_desc :: "val list \<Rightarrow> nat \<Rightarrow> nat list \<Rightarrow> nat list" where
  "insert_desc vs i [] = [i]"
| "insert_desc vs i (j # js) =
     (if flt (vs ! j) (vs ! i) then i # j # js else j # insert_desc vs i js)"

definition argsort_desc :: "val list \<Rightarrow> nat list" where
  "argsort_desc vs =
     foldl (\<lambda>acc i. insert_desc vs i acc) [] (filter (\<lambda>i. vs ! i \<noteq> NaN) [0..<length vs])"

fun pos :: "nat \<Rightarrow> nat list \<Rightarrow> nat" where
  "pos x [] = 0"
| "pos x (y # ys) = (if x = y then 0 else Suc (pos x ys))"

definition rank_nat :: "val list \<Rightarrow> nat \<Rightarrow> nat" where
  "rank_nat vs i = Suc (pos i (argsort_desc vs))"

definition rank_row :: "val list \<Rightarrow> val list" where
  "rank_row vs =
     map (\<lambda>i. if vs ! i = NaN then NaN else Num (real (rank_nat vs i))) [0..<length vs]"

text \<open>
  The order the sort establishes between two columns: the first does not hold the smaller
  value, and of two equal values the earlier column comes first.
\<close>

definition ranked_before :: "val list \<Rightarrow> nat \<Rightarrow> nat \<Rightarrow> bool" where
  "ranked_before vs a b = (\<not> flt (vs ! a) (vs ! b) \<and> (vs ! a = vs ! b \<longrightarrow> a < b))"

section \<open>portfolio\_generator.py: from signals to daily weights\<close>

text \<open>
  A rebalance period is a pandas frequency string.  What \<open>resample\<close> derives from it is a
  numbering of the periods: the number of the period a timestamp falls in, and the label a
  period's row gets in the resampled table.  \<open>month_end\<close> is the default \<open>'1M'\<close>: calendar
  months, each labelled by its last day.
\<close>

record freq =
  bin_of :: "timestamp \<Rightarrow> int"
  label_of :: "int \<Rightarrow> timestamp"

text \<open>
  The proleptic Gregorian calendar on day numbers.  Months are numbered from March of
  year 0, so that the leap day ends a year.
\<close>

definition month_start :: "int \<Rightarrow> timestamp" where
  "month_start k =
     (let y = k div 12; mp = k mod 12
      in 365 * y + y div 4 - y div 100 + y div 400 + (153 * mp + 2) div 5 - 719468)"

definition month_of :: "timestamp \<Rightarrow> int" where
  "month_of t =
     (let z = t + 719468;
          era = z div 146097;
          doe = z mod 146097;
          yoe = (doe - doe div 1460 + doe div 36524 - doe div 146096) div 365;
          doy = doe - (365 * yoe + yoe div 4 - yoe div 100);
          mp = (5 * doy + 2) div 153
      in (era * 400 + yoe) * 12 + mp)"

definition month_end :: freq where
  "month_end = \<lparr>bin_of = month_of, label_of = (\<lambda>k. month_start (k + 1) - 1)\<rparr>"

text \<open>
  \<open>month_begin\<close> is the frequency \<open>'1MS'\<close>: calendar months again, each labelled by
  its first day.
\<close>

definition month_begin :: freq where
  "month_begin = \<lparr>bin_of = month_of, label_of = month_start\<rparr>"

text \<open>Every frequency labels a later period with a later timestamp.\<close>

definition increasing_labels :: "freq \<Rightarrow> bool" where
  "increasing_labels f = (\<forall>a b. a < b \<longrightarrow> label_of f a < label_of f b)"

record portfolio_generator =
  signal_generator :: params
  rebalance_period :: freq
  longshort_split :: real

text \<open>
  \<open>resample(period).first()\<close>: one row for every period from that of the first timestamp
  to that of the last, empty periods included, holding for each column the first defined
  cell among the period's rows (\<open>NaN\<close> when there is none).  The index of a price table
  is sorted, as \<open>DatasetReader.read\<close> leaves it, so its first and last timestamps are the
  earliest and the latest.
\<close>

definition first_valid :: "val list \<Rightarrow> val list \<Rightarrow> val list" where
  "first_valid acc r = map2 (\<lambda>a x. if a = NaN then x else a) acc r"

definition resample_first :: "freq \<Rightarrow> val frame \<Rightarrow> val frame" where
  "resample_first f F =
     (if F = [] then []
      else map (\<lambda>b. (label_of f b,
                  foldl first_valid (replicate (ncols F) NaN)
                    (map snd (filter (\<lambda>(t, r). bin_of f t = b) F))))
             [bin_of f (fst (hd F))..bin_of f (fst (last F))])"

definition rank_signals :: "portfolio_generator \<Rightarrow> val frame \<Rightarrow> val frame" where
  "rank_signals g signal_df =
     (let monthly_signal = resample_first (rebalance_period g) signal_df
      in map_rows rank_row monthly_signal)"

text \<open>
  \<open>_assign_longshort\<close>: \<open>cutoff = rank_df.shape[1] * longshort_split\<close> and
  \<open>np.where(rank_df <= cutoff, 1, -1)\<close>.  A \<open>NaN\<close> rank fails the comparison and gets \<open>-1\<close>.
\<close>

definition assign_longshort_row :: "val \<Rightarrow> val list \<Rightarrow> int list" where
  "assign_longshort_row cutoff rk = map (\<lambda>r. if fle r cutoff then 1 else - 1) rk"

definition assign_longshort :: "portfolio_generator \<Rightarrow> val frame \<Rightarrow> int frame" where
  "assign_longshort g rank_df =
     (let cutoff = Num (real (ncols rank_df) * longshort_split g)
      in map_rows (assign_longshort_row cutoff) rank_df)"

text \<open>
  \<open>EqualWeightedPortfolioGenerator._assign_weights\<close>.  For every row the two leg weights
  are \<open>1 / count\<close>, an infinity when the count is zero; both products are formed for every
  cell and \<open>np.where(longshort > 0, ..., ...)\<close> picks one of them.
\<close>

definition assign_weights_row :: "int list \<Rightarrow> val list" where
  "assign_weights_row ls =
     (let long_leg_weights = fdiv (Num 1) (Num (real (length (filter (\<lambda>x. 0 < x) ls))));
          short_leg_weights = fdiv (Num 1) (Num (real (length (filter (\<lambda>x. x < 0) ls))))
      in map (\<lambda>x. if 0 < x then fmul (Num (real_of_int x)) long_leg_weights
                   else fmul (Num (real_of_int x)) short_leg_weights) ls)"

definition assign_weights :: "int frame \<Rightarrow> val frame" where
  "assign_weights longshort = map_rows assign_weights_row longshort"

text \<open>
  \<open>reindex(index, method='bfill')\<close>: a timestamp of the new index takes the row of the
  first label of the table that is not before it, and a row of \<open>NaN\<close> when every label is
  before it.  A list of rows does not record the columns of a table that has no row, so
  the number \<open>n\<close> of asset columns of the table is passed along.
\<close>

definition reindex_bfill :: "nat \<Rightarrow> val frame \<Rightarrow> timestamp list \<Rightarrow> val frame" where
  "reindex_bfill n W idx =
     map (\<lambda>t. (t, case find (\<lambda>(d, r). t \<le> d) W of
                    Some (d, r) \<Rightarrow> r
                  | None \<Rightarrow> replicate n NaN)) idx"

text \<open>
  The period-level weight table, and \<open>generate_weights\<close>, which upsamples it.  Keeping the
  intermediate tables for a later export (\<open>save_for_exporting\<close>) does not change the
  table returned and is left out, as are the plot and the files \<open>execute\<close> writes.
\<close>

definition period_weights :: "portfolio_generator \<Rightarrow> val frame \<Rightarrow> val frame" where
  "period_weights g signal_df =
     (let rank_df = rank_signals g signal_df;
          longshort_portfolios = assign_longshort g rank_df
      in assign_weights longshort_portfolios)"

definition generate_weights :: "portfolio_generator \<Rightarrow> val frame \<Rightarrow> error + val frame" where
  "generate_weights g prices_df =
     (case generate (signal_generator g) prices_df of
        Inl e \<Rightarrow> Inl e
      | Inr signal_df \<Rightarrow>
          Inr (reindex_bfill (ncols prices_df) (period_weights g signal_df) (map fst prices_df)))"

text \<open>
  The generator that \<open>run.py\<close> builds: a momentum signal with
  \<open>rolling_avg_days=252\<close>, and the defaults \<open>rebalance_period='1M'\<close> and
  \<open>longshort_split=0.5\<close>.
\<close>

definition run_generator :: portfolio_generator where
  "run_generator =
     \<lparr>signal_generator = [''rolling_avg_days'' \<mapsto> 252],
      rebalance_period = month_end,
      longshort_split = 1 / 2\<rparr>"

text \<open>
  Two small price tables of two assets.  \<open>prices_january\<close> has the three trading days
  2000-01-03 to 2000-01-05; \<open>prices_two_months\<close> has the four days 2000-01-28 to
  2000-02-02, so that it spans the rebalance dates 2000-01-31 (day 10987) and 2000-02-29
  (day 11016).
\<close>

definition prices_january :: "val frame" where
  "prices_january =
     [(10959, [Num 100, Num 100]), (10960, [Num 110, Num 100]), (10961, [Num 121, Num 90])]"

definition prices_two_months :: "val frame" where
  "prices_two_months =
     [(10984, [Num 100, Num 100]), (10987, [Num 110, Num 100]),
      (10988, [Num 55, Num 100]), (10989, [Num 55, Num 100])]"

section \<open>backtesting.py\<close>

text \<open>
  \<open>cumprod()\<close> on one column with the default \<open>skipna=True\<close>: a \<open>NaN\<close> cell stays \<open>NaN\<close>
  and leaves the running product as it was.
\<close>

fun cumprod_from :: "val \<Rightarrow> val list \<Rightarrow> val list" where
  "cumprod_from acc [] = []"
| "cumprod_from acc (x # xs) =
     (if x = NaN then NaN # cumprod_from acc xs
      else fmul acc x # cumprod_from (fmul acc x) xs)"

definition cumprod :: "val frame \<Rightarrow> val frame" where
  "cumprod F = map_cols (cumprod_from (Num 1)) F"

definition get_pnls :: "val frame \<Rightarrow> val frame \<Rightarrow> val frame \<times> (timestamp \<times> val) list" where
  "get_pnls prices_df daily_weights =
     (let assets_daily_pct_change = pct_change prices_df;
          asset_pnls =
            map_rows (map (\<lambda>x. fsub x (Num 1)))
              (cumprod (map_rows (map (fadd (Num 1)))
                 (frame_map2 fmul daily_weights assets_daily_pct_change)));
          total_pnl = map (\<lambda>(t, r). (t, nansum r)) asset_pnls
      in (asset_pnls, total_pnl))"

text \<open>
  A daily weight table for a price table: the same timestamps, one cell per asset column,
  every cell a finite number or missing.
\<close>

definition daily_table :: "val frame \<Rightarrow> val frame \<Rightarrow> bool" where
  "daily_table W P =
     (map fst W = map fst P
      \<and> list_all (\<lambda>(t, r). length r = ncols P \<and> list_all finite_or_nan r) W)"

section \<open>Properties of ranking, legs and weights\<close>

subsection \<open>Ranking\<close>

lemma flt_irrefl: "\<not> flt x x"
  by (cases x) simp_all

lemma flt_asym: "flt x y \<Longrightarrow> \<not> flt y x"
  by (cases x; cases y) simp_all

lemma flt_le_trans: "\<not> flt y x \<Longrightarrow> flt y z \<Longrightarrow> x \<noteq> NaN \<Longrightarrow> y \<noteq> NaN \<Longrightarrow> flt x z"
  by (cases x; cases y; cases z) auto

lemma set_insert_desc: "set (insert_desc vs i js) = insert i (set js)"
  by (induction js) auto

lemma length_insert_desc: "length (insert_desc vs i js) = Suc (length js)"
  by (induction js) auto

lemma distinct_insert_desc:
  "distinct js \<Longrightarrow> i \<notin> set js \<Longrightarrow> distinct (insert_desc vs i js)"
  by (induction js) (auto simp: set_insert_desc)

lemma sorted_insert_desc:
  assumes "sorted_wrt (ranked_before vs) js"
    and "\<forall>j\<in>set js. j < i \<and> vs ! j \<noteq> NaN"
    and "vs ! i \<noteq> NaN"
  shows "sorted_wrt (ranked_before vs) (insert_desc vs i js)"
  using assms
proof (induction js)
  case Nil
  then show ?case by simp
next
  case (Cons j js)
  show ?case
  proof (cases "flt (vs ! j) (vs ! i)")
    case True
    have "ranked_before vs i k" if "k \<in> set (j # js)" for k
    proof -
      have "\<not> flt (vs ! j) (vs ! k)"
        using that Cons.prems(1) by (auto simp: ranked_before_def flt_irrefl)
      moreover have "vs ! k \<noteq> NaN" "vs ! j \<noteq> NaN"
        using that Cons.prems(2) by auto
      ultimately have "flt (vs ! k) (vs ! i)"
        using True flt_le_trans by blast
      then show ?thesis
        by (auto simp: ranked_before_def dest: flt_asym simp: flt_irrefl)
    qed
    with True Cons.prems(1) show ?thesis by simp
  next
    case False
    have "ranked_before vs j i"
      using False Cons.prems(2) by (simp add: ranked_before_def)
    moreover have "sorted_wrt (ranked_before vs) (insert_desc vs i js)"
      using Cons by simp
    ultimately show ?thesis
      using False Cons.prems(1) by (auto simp: set_insert_desc)
  qed
qed

lemma foldl_insert_desc:
  assumes "sorted_wrt (<) is" and "\<forall>i\<in>set is. vs ! i \<noteq> NaN"
  shows "set (foldl (\<lambda>acc i. insert_desc vs i acc) [] is) = set is
       \<and> distinct (foldl (\<lambda>acc i. insert_desc vs i acc) [] is)
       \<and> length (foldl (\<lambda>acc i. insert_desc vs i acc) [] is) = length is
       \<and> sorted_wrt (ranked_before vs) (foldl (\<lambda>acc i. insert_desc vs i acc) [] is)"
  using assms
proof (induction "is" rule: rev_induct)
  case Nil
  then show ?case by simp
next
  case (snoc i "is")
  let ?ord = "foldl (\<lambda>acc i. insert_desc vs i acc) [] is"
  have before: "\<forall>j\<in>set is. j < i"
    using snoc.prems(1) by (simp add: sorted_wrt_append)
  have ih: "set ?ord = set is" "distinct ?ord" "length ?ord = length is"
    "sorted_wrt (ranked_before vs) ?ord"
    using snoc by (simp_all add: sorted_wrt_append)
  have "i \<notin> set ?ord" using before ih(1) by auto
  moreover have "\<forall>j\<in>set ?ord. j < i \<and> vs ! j \<noteq> NaN"
    using before ih(1) snoc.prems(2) by auto
  moreover have "vs ! i \<noteq> NaN" using snoc.prems(2) by simp
  ultimately show ?case
    using ih by (simp add: set_insert_desc distinct_insert_desc length_insert_desc
        sorted_insert_desc)
qed

lemma argsort_desc_props:
  "set (argsort_desc vs) = {i. i < length vs \<and> vs ! i \<noteq> NaN}"
  "distinct (argsort_desc vs)"
  "sorted_wrt (ranked_before vs) (argsort_desc vs)"
proof -
  let ?is = "filter (\<lambda>i. vs ! i \<noteq> NaN) [0..<length vs]"
  have "sorted_wrt (<) ?is" by (simp add: sorted_wrt_filter)
  moreover have "\<forall>i\<in>set ?is. vs ! i \<noteq> NaN" by simp
  ultimately have *: "set (argsort_desc vs) = set ?is \<and> distinct (argsort_desc vs)
       \<and> length (argsort_desc vs) = length ?is
       \<and> sorted_wrt (ranked_before vs) (argsort_desc vs)"
    unfolding argsort_desc_def by (rule foldl_insert_desc)
  show "set (argsort_desc vs) = {i. i < length vs \<and> vs ! i \<noteq> NaN}" using * by auto
  show "distinct (argsort_desc vs)" using * by simp
  show "sorted_wrt (ranked_before vs) (argsort_desc vs)" using * by simp
qed

lemma pos_less_length: "x \<in> set xs \<Longrightarrow> pos x xs < length xs"
  by (induction xs) auto

lemma nth_pos: "x \<in> set xs \<Longrightarrow> xs ! pos x xs = x"
  by (induction xs) auto

lemma pos_inj: "x \<in> set xs \<Longrightarrow> y \<in> set xs \<Longrightarrow> pos x xs = pos y xs \<Longrightarrow> x = y"
  by (metis nth_pos)

lemma sorted_wrt_pos:
  "sorted_wrt R xs \<Longrightarrow> a \<in> set xs \<Longrightarrow> b \<in> set xs \<Longrightarrow> pos a xs < pos b xs \<Longrightarrow> R a b"
  by (metis nth_pos pos_less_length sorted_wrt_nth_less)

lemma rank_nat_order:
  assumes "i < length vs" "j < length vs" "vs ! i \<noteq> NaN" "vs ! j \<noteq> NaN"
    and "flt (vs ! j) (vs ! i) \<or> (vs ! i = vs ! j \<and> i < j)"
  shows "rank_nat vs i < rank_nat vs j"
proof (rule ccontr)
  let ?ord = "argsort_desc vs"
  assume "\<not> rank_nat vs i < rank_nat vs j"
  then have le: "pos j ?ord \<le> pos i ?ord" by (simp add: rank_nat_def)
  have mem: "i \<in> set ?ord" "j \<in> set ?ord"
    using assms by (simp_all add: argsort_desc_props(1))
  have "i \<noteq> j" using assms(5) by (auto simp: flt_irrefl)
  then have "pos j ?ord \<noteq> pos i ?ord" using mem pos_inj by blast
  then have "pos j ?ord < pos i ?ord" using le by simp
  then have "ranked_before vs j i"
    using sorted_wrt_pos [OF argsort_desc_props(3)] mem by blast
  then show False
    using assms(5) by (auto simp: ranked_before_def)
qed

lemma rank_nat_perm:
  assumes "\<forall>v\<in>set vs. v \<noteq> NaN"
  shows "distinct (map (rank_nat vs) [0..<length vs])"
    and "set (map (rank_nat vs) [0..<length vs]) = {1..length vs}"
proof -
  let ?ord = "argsort_desc vs"
  let ?N = "length vs"
  have set_ord: "set ?ord = {0..<?N}"
    using assms by (auto simp: argsort_desc_props(1))
  have len: "length ?ord = ?N"
    using distinct_card [OF argsort_desc_props(2), of vs] set_ord by simp
  have inj: "inj_on (rank_nat vs) {0..<?N}"
  proof (rule inj_onI)
    fix x y
    assume "x \<in> {0..<?N}" "y \<in> {0..<?N}" "rank_nat vs x = rank_nat vs y"
    then have "x \<in> set ?ord" "y \<in> set ?ord" "pos x ?ord = pos y ?ord"
      using set_ord by (simp_all add: rank_nat_def)
    then show "x = y" by (rule pos_inj)
  qed
  show d: "distinct (map (rank_nat vs) [0..<?N])"
    using inj by (simp add: distinct_map)
  have "pos i ?ord < ?N" if "i < ?N" for i
    using pos_less_length [of i ?ord] set_ord len that by simp
  then have sub: "set (map (rank_nat vs) [0..<?N]) \<subseteq> {1..?N}"
    by (auto simp: rank_nat_def Suc_le_eq)
  have "card (set (map (rank_nat vs) [0..<?N])) = ?N"
    using distinct_card [OF d] by simp
  then show "set (map (rank_nat vs) [0..<?N]) = {1..?N}"
    using sub by (simp add: card_subset_eq)
qed

lemma length_map_rows: "length (map_rows f F) = length F"
  by (simp add: map_rows_def)

lemma nth_map_rows: "k < length F \<Longrightarrow> map_rows f F ! k = (fst (F ! k), f (snd (F ! k)))"
  by (simp add: map_rows_def case_prod_beta)

lemma rank_row_defined:
  assumes "NaN \<notin> set vs"
  shows "rank_row vs = map (\<lambda>k. Num (real k)) (map (rank_nat vs) [0..<length vs])"
proof -
  have "vs ! i \<noteq> NaN" if "i < length vs" for i
    using assms that nth_mem by metis
  then show ?thesis by (simp add: rank_row_def)
qed

lemma rank_row_undefined:
  assumes "set vs \<subseteq> {NaN}"
  shows "rank_row vs = replicate (length vs) NaN"
proof -
  have "vs ! i = NaN" if "i < length vs" for i
    using assms that nth_mem by fastforce
  then have "rank_row vs = map (\<lambda>i. NaN) [0..<length vs]"
    by (simp add: rank_row_def)
  then show ?thesis by (simp add: map_replicate_const)
qed

text \<open>
  Claim C3.  Take a row of the resampled signal table with \<open>N\<close> assets and no missing
  signal.  The ranks \<open>_rank_signals\<close> gives it are the whole numbers of a permutation of
  \<open>1..N\<close>: no rank is repeated and none is fractional.  A higher signal gets a smaller
  rank (the highest gets rank 1), and of two equal signals the one in the earlier column
  gets the smaller rank.
\<close>

theorem rank_signals_permutation:
  assumes "k < length (resample_first (rebalance_period g) signal_df)"
    and "resample_first (rebalance_period g) signal_df ! k = (d, vs)"
    and "NaN \<notin> set vs"
  shows "\<exists>ks. rank_signals g signal_df ! k = (d, map (\<lambda>r. Num (real r)) ks)
           \<and> length ks = length vs \<and> distinct ks \<and> set ks = {1..length vs}
           \<and> (\<forall>i<length vs. \<forall>j<length vs. flt (vs ! j) (vs ! i) \<longrightarrow> ks ! i < ks ! j)
           \<and> (\<forall>i<length vs. \<forall>j<length vs. vs ! i = vs ! j \<and> i < j \<longrightarrow> ks ! i < ks ! j)"
proof -
  let ?ks = "map (rank_nat vs) [0..<length vs]"
  have defined: "\<forall>v\<in>set vs. v \<noteq> NaN" using assms(3) by auto
  have nth_defined: "vs ! i \<noteq> NaN" if "i < length vs" for i
    using defined that by simp
  have "rank_signals g signal_df ! k = (d, rank_row vs)"
    using assms(1,2) by (simp add: rank_signals_def nth_map_rows)
  then have "rank_signals g signal_df ! k = (d, map (\<lambda>r. Num (real r)) ?ks)"
    using rank_row_defined [OF assms(3)] by simp
  moreover have "length ?ks = length vs" by simp
  moreover have "distinct ?ks" "set ?ks = {1..length vs}"
    using rank_nat_perm [OF defined] by simp_all
  moreover have "\<forall>i<length vs. \<forall>j<length vs. flt (vs ! j) (vs ! i) \<longrightarrow> ?ks ! i < ?ks ! j"
    using rank_nat_order nth_defined by simp
  moreover have "\<forall>i<length vs. \<forall>j<length vs. vs ! i = vs ! j \<and> i < j \<longrightarrow> ?ks ! i < ?ks ! j"
    using rank_nat_order nth_defined by simp
  ultimately show ?thesis by blast
qed

theorem rank_signals_permutation_witness:
  "\<exists>ks. rank_signals run_generator [(10959, [Num (12 / 100), Num (14 / 100), Num (12 / 100)])] ! 0
            = (10987, map (\<lambda>r. Num (real r)) ks)
         \<and> length ks = length [Num (12 / 100), Num (14 / 100), Num (12 / 100)]
         \<and> distinct ks
         \<and> set ks = {1..length [Num (12 / 100), Num (14 / 100), Num (12 / 100)]}
         \<and> (\<forall>i<length [Num (12 / 100), Num (14 / 100), Num (12 / 100)].
              \<forall>j<length [Num (12 / 100), Num (14 / 100), Num (12 / 100)].
                flt ([Num (12 / 100), Num (14 / 100), Num (12 / 100)] ! j)
                    ([Num (12 / 100), Num (14 / 100), Num (12 / 100)] ! i) \<longrightarrow> ks ! i < ks ! j)
         \<and> (\<forall>i<length [Num (12 / 100), Num (14 / 100), Num (12 / 100)].
              \<forall>j<length [Num (12 / 100), Num (14 / 100), Num (12 / 100)].
                [Num (12 / 100), Num (14 / 100), Num (12 / 100)] ! i
                  = [Num (12 / 100), Num (14 / 100), Num (12 / 100)] ! j \<and> i < j \<longrightarrow> ks ! i < ks ! j)"
proof -
  have h1: "0 < length (resample_first (rebalance_period run_generator)
                 [(10959, [Num (12 / 100), Num (14 / 100), Num (12 / 100)])])"
    by code_simp
  have h2: "resample_first (rebalance_period run_generator)
               [(10959, [Num (12 / 100), Num (14 / 100), Num (12 / 100)])] ! 0
             = (10987, [Num (12 / 100), Num (14 / 100), Num (12 / 100)])"
    by code_simp
  have h3: "NaN \<notin> set [Num (12 / 100), Num (14 / 100), Num (12 / 100)]"
    by simp
  show ?thesis
    by (rule rank_signals_permutation [OF h1 h2 h3])
qed

subsection \<open>Long/short\<close>

lemma nth_assign_longshort:
  "k < length rank_df \<Longrightarrow>
   assign_longshort g rank_df ! k =
     (fst (rank_df ! k),
      assign_longshort_row (Num (real (ncols rank_df) * longshort_split g)) (snd (rank_df ! k)))"
  by (simp add: assign_longshort_def nth_map_rows)

lemma nth_assign_weights:
  "k < length longshort \<Longrightarrow>
   assign_weights longshort ! k = (fst (longshort ! k), assign_weights_row (snd (longshort ! k)))"
  by (simp add: assign_weights_def nth_map_rows)

lemma length_assign_longshort: "length (assign_longshort g rank_df) = length rank_df"
  by (simp add: assign_longshort_def length_map_rows)

lemma set_assign_longshort_row: "set (assign_longshort_row c rk) \<subseteq> {1, - 1}"
  by (auto simp: assign_longshort_row_def)

text \<open>
  Claim C4.  In every row of the rank table, \<open>_assign_longshort\<close> gives \<open>+1\<close> to exactly
  the assets whose rank is at most \<open>N * longshort_split\<close>, \<open>N\<close> being the number of
  asset columns, and \<open>-1\<close> to all others.  For the monthly signals 0.14, 0.12, 0.05 and
  the split 0.5 the ranks are 1, 2, 3, the cutoff is 1.5, only the first asset is long, and
  the equal weights are +1, -0.5, -0.5.
\<close>

theorem assign_longshort_cutoff:
  assumes "k < length rank_df" and "i < length (snd (rank_df ! k))"
  shows "snd (assign_longshort g rank_df ! k) ! i =
           (if fle (snd (rank_df ! k) ! i) (Num (real (ncols rank_df) * longshort_split g))
            then 1 else - 1)
       \<and> rank_signals run_generator [(10957, [Num (14 / 100), Num (12 / 100), Num (5 / 100)])]
           = [(10987, [Num 1, Num 2, Num 3])]
       \<and> real (ncols [(10987 :: int, [Num 1, Num 2, Num 3])]) * longshort_split run_generator = 3 / 2
       \<and> assign_longshort run_generator [(10987, [Num 1, Num 2, Num 3])]
           = [(10987, [1, - 1, - 1])]
       \<and> assign_weights [(10987, [1, - 1, - 1])]
           = [(10987, [Num 1, Num (- (1 / 2)), Num (- (1 / 2))])]"
proof -
  have "snd (assign_longshort g rank_df ! k) ! i =
           (if fle (snd (rank_df ! k) ! i) (Num (real (ncols rank_df) * longshort_split g))
            then 1 else - 1)"
    using assms by (simp add: nth_assign_longshort assign_longshort_row_def)
  moreover have "rank_signals run_generator [(10957, [Num (14 / 100), Num (12 / 100), Num (5 / 100)])]
           = [(10987, [Num 1, Num 2, Num 3])]"
    by code_simp
  moreover have "real (ncols [(10987 :: int, [Num 1, Num 2, Num 3])]) * longshort_split run_generator = 3 / 2"
    by (simp add: ncols_def run_generator_def)
  moreover have "assign_longshort run_generator [(10987, [Num 1, Num 2, Num 3])]
           = [(10987, [1, - 1, - 1])]"
    by code_simp
  moreover have "assign_weights [(10987, [1, - 1, - 1])]
           = [(10987, [Num 1, Num (- (1 / 2)), Num (- (1 / 2))])]"
    by code_simp
  ultimately show ?thesis by blast
qed

theorem assign_longshort_cutoff_witness:
  "snd (assign_longshort run_generator [(10987, [Num 1, Num 2, Num 3])] ! 0) ! 1 =
           (if fle (snd ([(10987 :: int, [Num 1, Num 2, Num 3])] ! 0) ! 1)
                 (Num (real (ncols [(10987 :: int, [Num 1, Num 2, Num 3])])
                        * longshort_split run_generator))
            then 1 else - 1)
       \<and> rank_signals run_generator [(10957, [Num (14 / 100), Num (12 / 100), Num (5 / 100)])]
           = [(10987, [Num 1, Num 2, Num 3])]
       \<and> real (ncols [(10987 :: int, [Num 1, Num 2, Num 3])]) * longshort_split run_generator = 3 / 2
       \<and> assign_longshort run_generator [(10987, [Num 1, Num 2, Num 3])]
           = [(10987, [1, - 1, - 1])]
       \<and> assign_weights [(10987, [1, - 1, - 1])]
           = [(10987, [Num 1, Num (- (1 / 2)), Num (- (1 / 2))])]"
proof -
  have h1: "0 < length [(10987 :: int, [Num 1, Num 2, Num 3])]"
    by simp
  have h2: "1 < length (snd ([(10987 :: int, [Num 1, Num 2, Num 3])] ! 0))"
    by simp
  show ?thesis
    by (rule assign_longshort_cutoff [OF h1 h2])
qed

subsection \<open>Equal weights\<close>

lemma nansum_replicate: "nansum (replicate n (Num c)) = Num (real n * c)"
proof -
  have "foldr fadd (replicate n (Num c)) (Num 0) = Num (real n * c)"
    by (induction n) (simp_all add: algebra_simps)
  then show ?thesis by (simp add: nansum_def)
qed

lemma assign_weights_row_explicit:
  assumes "set ls \<subseteq> {1, - 1}"
  shows "assign_weights_row ls =
           map (\<lambda>x. if 0 < x then Num (1 / real (length (filter (\<lambda>x. 0 < x) ls)))
                    else Num (- (1 / real (length (filter (\<lambda>x. x < 0) ls))))) ls"
proof -
  let ?p = "length (filter (\<lambda>x. 0 < x) ls)"
  let ?q = "length (filter (\<lambda>x. x < 0) ls)"
  have cell: "(if 0 < x then fmul (Num (real_of_int x)) (fdiv (Num 1) (Num (real ?p)))
               else fmul (Num (real_of_int x)) (fdiv (Num 1) (Num (real ?q))))
            = (if 0 < x then Num (1 / real ?p) else Num (- (1 / real ?q)))"
    if "x \<in> set ls" for x
  proof (cases "0 < x")
    case True
    then have "x = 1" using assms that by auto
    moreover have "filter (\<lambda>x. 0 < x) ls \<noteq> []"
      using True that by (auto simp: filter_empty_conv)
    ultimately show ?thesis by simp
  next
    case False
    then have x: "x = - 1" using assms that by auto
    then have "x < 0" by simp
    then have "filter (\<lambda>x. x < 0) ls \<noteq> []"
      using that unfolding filter_empty_conv by blast
    then show ?thesis using x by simp
  qed
  show ?thesis
    unfolding assign_weights_row_def Let_def using cell by (intro map_cong) auto
qed

lemma assign_weights_row_sums:
  assumes "set ls \<subseteq> {1, - 1}"
  shows "nansum (filter (\<lambda>w. flt (Num 0) w) (assign_weights_row ls))
           = Num (if length (filter (\<lambda>x. 0 < x) ls) = 0 then 0 else 1)"
    and "nansum (filter (\<lambda>w. flt w (Num 0)) (assign_weights_row ls))
           = Num (if length (filter (\<lambda>x. x < 0) ls) = 0 then 0 else - 1)"
    and "list_all finite_val (assign_weights_row ls)"
proof -
  let ?p = "length (filter (\<lambda>x. 0 < x) ls)"
  let ?q = "length (filter (\<lambda>x. x < 0) ls)"
  let ?h = "\<lambda>x::int. if 0 < x then Num (1 / real ?p) else Num (- (1 / real ?q))"
  have w: "assign_weights_row ls = map ?h ls"
    by (rule assign_weights_row_explicit [OF assms])
  have pos: "flt (Num 0) (?h x) = (0 < x)" if "x \<in> set ls" for x
  proof (cases "0 < x")
    case True
    then have "filter (\<lambda>x. 0 < x) ls \<noteq> []"
      using that by (auto simp: filter_empty_conv)
    then show ?thesis using True by simp
  next
    case False
    then show ?thesis by simp
  qed
  have neg: "flt (?h x) (Num 0) = (x < 0)" if "x \<in> set ls" for x
  proof (cases "0 < x")
    case True
    then show ?thesis by simp
  next
    case False
    then have x: "x = - 1" using assms that by auto
    then have "x < 0" by simp
    then have "filter (\<lambda>x. x < 0) ls \<noteq> []"
      using that unfolding filter_empty_conv by blast
    then show ?thesis using x by simp
  qed
  have "filter (\<lambda>w. flt (Num 0) w) (map ?h ls) = map ?h (filter (\<lambda>x. 0 < x) ls)"
    using pos by (simp add: filter_map comp_def cong: filter_cong)
  also have "\<dots> = replicate ?p (Num (1 / real ?p))"
    by (simp add: map_replicate_const [symmetric] cong: map_cong)
  finally show "nansum (filter (\<lambda>w. flt (Num 0) w) (assign_weights_row ls))
           = Num (if ?p = 0 then 0 else 1)"
    by (simp add: w nansum_replicate)
  have "filter (\<lambda>w. flt w (Num 0)) (map ?h ls) = map ?h (filter (\<lambda>x. x < 0) ls)"
    using neg by (simp add: filter_map comp_def cong: filter_cong)
  also have "\<dots> = replicate ?q (Num (- (1 / real ?q)))"
    by (simp add: map_replicate_const [symmetric] cong: map_cong)
  finally show "nansum (filter (\<lambda>w. flt w (Num 0)) (assign_weights_row ls))
           = Num (if ?q = 0 then 0 else - 1)"
    by (simp add: w nansum_replicate)
  show "list_all finite_val (assign_weights_row ls)"
    by (auto simp: w list_all_iff)
qed

lemma nth_weights_of_longshort:
  assumes "k < length rank_df"
  shows "snd (assign_weights (assign_longshort g rank_df) ! k)
           = assign_weights_row (snd (assign_longshort g rank_df ! k))"
    and "set (snd (assign_longshort g rank_df ! k)) \<subseteq> {1, - 1}"
  using assms
  by (simp_all add: nth_assign_weights length_assign_longshort nth_assign_longshort
      set_assign_longshort_row)

text \<open>
  Claim C2.  In every row of the weight table whose long leg and short leg are both
  non-empty, the positive weights sum to 1 and the negative weights sum to -1.  With
  finite cells carried as exact reals the two sums are exact, hence within \<open>1e-9\<close>.
\<close>

theorem assign_weights_leg_sums:
  assumes "k < length rank_df"
    and "\<exists>x\<in>set (snd (assign_longshort g rank_df ! k)). 0 < x"
    and "\<exists>x\<in>set (snd (assign_longshort g rank_df ! k)). x < 0"
  shows "nansum (filter (\<lambda>w. flt (Num 0) w)
                   (snd (assign_weights (assign_longshort g rank_df) ! k))) = Num 1
       \<and> nansum (filter (\<lambda>w. flt w (Num 0))
                   (snd (assign_weights (assign_longshort g rank_df) ! k))) = Num (- 1)
       \<and> within_tol (nansum (filter (\<lambda>w. flt (Num 0) w)
                   (snd (assign_weights (assign_longshort g rank_df) ! k)))) 1 (1 / 10 ^ 9)
       \<and> within_tol (nansum (filter (\<lambda>w. flt w (Num 0))
                   (snd (assign_weights (assign_longshort g rank_df) ! k)))) (- 1) (1 / 10 ^ 9)"
proof -
  let ?ls = "snd (assign_longshort g rank_df ! k)"
  have long: "length (filter (\<lambda>x. 0 < x) ?ls) \<noteq> 0"
    using assms(2) by (simp add: filter_empty_conv)
  have short: "length (filter (\<lambda>x. x < 0) ?ls) \<noteq> 0"
    using assms(3) by (simp add: filter_empty_conv)
  have "nansum (filter (\<lambda>w. flt (Num 0) w) (assign_weights_row ?ls)) = Num 1"
    using assign_weights_row_sums(1) [OF nth_weights_of_longshort(2) [OF assms(1)], of g] long
    by simp
  moreover have "nansum (filter (\<lambda>w. flt w (Num 0)) (assign_weights_row ?ls)) = Num (- 1)"
    using assign_weights_row_sums(2) [OF nth_weights_of_longshort(2) [OF assms(1)], of g] short
    by simp
  ultimately show ?thesis
    by (simp add: nth_weights_of_longshort(1) [OF assms(1)] within_tol_def)
qed

theorem assign_weights_leg_sums_witness:
  "nansum (filter (\<lambda>w. flt (Num 0) w)
             (snd (assign_weights (assign_longshort run_generator
                     [(10987, [Num 3, Num 1, Num 2, Num 4])]) ! 0))) = Num 1
   \<and> nansum (filter (\<lambda>w. flt w (Num 0))
             (snd (assign_weights (assign_longshort run_generator
                     [(10987, [Num 3, Num 1, Num 2, Num 4])]) ! 0))) = Num (- 1)
   \<and> within_tol (nansum (filter (\<lambda>w. flt (Num 0) w)
             (snd (assign_weights (assign_longshort run_generator
                     [(10987, [Num 3, Num 1, Num 2, Num 4])]) ! 0)))) 1 (1 / 10 ^ 9)
   \<and> within_tol (nansum (filter (\<lambda>w. flt w (Num 0))
             (snd (assign_weights (assign_longshort run_generator
                     [(10987, [Num 3, Num 1, Num 2, Num 4])]) ! 0)))) (- 1) (1 / 10 ^ 9)"
proof -
  have h1: "0 < length [(10987 :: int, [Num 3, Num 1, Num 2, Num 4])]"
    by simp
  have h2: "\<exists>x\<in>set (snd (assign_longshort run_generator
                [(10987, [Num 3, Num 1, Num 2, Num 4])] ! 0)). 0 < x"
    by code_simp
  have h3: "\<exists>x\<in>set (snd (assign_longshort run_generator
                [(10987, [Num 3, Num 1, Num 2, Num 4])] ! 0)). x < 0"
    by code_simp
  show ?thesis
    by (rule assign_weights_leg_sums [OF h1 h2 h3])
qed

text \<open>
  Claim C8.  In a row where one leg has no member, every weight \<open>_assign_weights\<close>
  returns is a finite number, and the empty leg carries no weight: the weights on its side
  of zero sum to 0.  The infinite leg weight \<open>1 / 0\<close> is computed but never selected; all
  \<open>N\<close> assets are in the other leg and each gets \<open>1 / N\<close> with that leg's sign.
\<close>

theorem assign_weights_empty_leg:
  assumes "k < length rank_df"
    and "filter (\<lambda>x. 0 < x) (snd (assign_longshort g rank_df ! k)) = []
         \<or> filter (\<lambda>x. x < 0) (snd (assign_longshort g rank_df ! k)) = []"
  shows "list_all finite_val (snd (assign_weights (assign_longshort g rank_df) ! k))
       \<and> (filter (\<lambda>x. 0 < x) (snd (assign_longshort g rank_df ! k)) = [] \<longrightarrow>
            nansum (filter (\<lambda>w. flt (Num 0) w)
              (snd (assign_weights (assign_longshort g rank_df) ! k))) = Num 0
            \<and> snd (assign_weights (assign_longshort g rank_df) ! k)
                = replicate (length (snd (rank_df ! k)))
                    (Num (- (1 / real (length (snd (rank_df ! k)))))))
       \<and> (filter (\<lambda>x. x < 0) (snd (assign_longshort g rank_df ! k)) = [] \<longrightarrow>
            nansum (filter (\<lambda>w. flt w (Num 0))
              (snd (assign_weights (assign_longshort g rank_df) ! k))) = Num 0
            \<and> snd (assign_weights (assign_longshort g rank_df) ! k)
                = replicate (length (snd (rank_df ! k)))
                    (Num (1 / real (length (snd (rank_df ! k))))))"
proof -
  let ?ls = "snd (assign_longshort g rank_df ! k)"
  let ?W = "snd (assign_weights (assign_longshort g rank_df) ! k)"
  let ?n = "length (snd (rank_df ! k))"
  have pm: "set ?ls \<subseteq> {1, - 1}"
    by (rule nth_weights_of_longshort(2) [OF assms(1)])
  have W: "?W = assign_weights_row ?ls"
    by (rule nth_weights_of_longshort(1) [OF assms(1)])
  have len: "length ?ls = ?n"
    using assms(1) by (simp add: nth_assign_longshort assign_longshort_row_def)
  have fin: "list_all finite_val ?W"
    using assign_weights_row_sums(3) [OF pm] W by simp
  have no_long: "nansum (filter (\<lambda>w. flt (Num 0) w) ?W) = Num 0
      \<and> ?W = replicate ?n (Num (- (1 / real ?n)))"
    if empty: "filter (\<lambda>x. 0 < x) ?ls = []"
  proof -
    have all: "\<forall>x\<in>set ?ls. x = - 1"
      using empty pm unfolding filter_empty_conv by force
    then have "filter (\<lambda>x. x < 0) ?ls = ?ls"
      by (auto simp: filter_id_conv)
    moreover have "map (\<lambda>x. if 0 < x then Num (1 / real (length (filter (\<lambda>x. 0 < x) ?ls)))
                     else Num (- (1 / real (length (filter (\<lambda>x. x < 0) ?ls))))) ?ls
                 = map (\<lambda>x. Num (- (1 / real (length (filter (\<lambda>x. x < 0) ?ls))))) ?ls"
      using all by (intro map_cong) auto
    ultimately have "?W = replicate ?n (Num (- (1 / real ?n)))"
      using assign_weights_row_explicit [OF pm] W len by (simp add: map_replicate_const)
    moreover have "nansum (filter (\<lambda>w. flt (Num 0) w) ?W) = Num 0"
      using assign_weights_row_sums(1) [OF pm] W empty by simp
    ultimately show ?thesis by simp
  qed
  have no_short: "nansum (filter (\<lambda>w. flt w (Num 0)) ?W) = Num 0
      \<and> ?W = replicate ?n (Num (1 / real ?n))"
    if empty: "filter (\<lambda>x. x < 0) ?ls = []"
  proof -
    have all: "\<forall>x\<in>set ?ls. x = 1"
      using empty pm unfolding filter_empty_conv by force
    then have "filter (\<lambda>x. 0 < x) ?ls = ?ls"
      by (auto simp: filter_id_conv)
    moreover have "map (\<lambda>x. if 0 < x then Num (1 / real (length (filter (\<lambda>x. 0 < x) ?ls)))
                     else Num (- (1 / real (length (filter (\<lambda>x. x < 0) ?ls))))) ?ls
                 = map (\<lambda>x. Num (1 / real (length (filter (\<lambda>x. 0 < x) ?ls)))) ?ls"
      using all by (intro map_cong) auto
    ultimately have "?W = replicate ?n (Num (1 / real ?n))"
      using assign_weights_row_explicit [OF pm] W len by (simp add: map_replicate_const)
    moreover have "nansum (filter (\<lambda>w. flt w (Num 0)) ?W) = Num 0"
      using assign_weights_row_sums(2) [OF pm] W empty by simp
    ultimately show ?thesis by simp
  qed
  show ?thesis using fin no_long no_short by blast
qed

theorem assign_weights_empty_leg_witness:
  "list_all finite_val
     (snd (assign_weights (assign_longshort (run_generator\<lparr>longshort_split := 1\<rparr>)
             [(10987, [Num 2, Num 1])]) ! 0))
   \<and> nansum (filter (\<lambda>w. flt w (Num 0))
        (snd (assign_weights (assign_longshort (run_generator\<lparr>longshort_split := 1\<rparr>)
             [(10987, [Num 2, Num 1])]) ! 0))) = Num 0
   \<and> snd (assign_weights (assign_longshort (run_generator\<lparr>longshort_split := 1\<rparr>)
             [(10987, [Num 2, Num 1])]) ! 0)
       = replicate (length (snd ([(10987 :: int, [Num 2, Num 1])] ! 0)))
           (Num (1 / real (length (snd ([(10987 :: int, [Num 2, Num 1])] ! 0)))))"
proof -
  have h1: "0 < length [(10987 :: int, [Num 2, Num 1])]"
    by simp
  have e: "filter (\<lambda>x. x < 0)
             (snd (assign_longshort (run_generator\<lparr>longshort_split := 1\<rparr>)
                [(10987, [Num 2, Num 1])] ! 0)) = []"
    by code_simp
  then have h2: "filter (\<lambda>x. 0 < x)
             (snd (assign_longshort (run_generator\<lparr>longshort_split := 1\<rparr>)
                [(10987, [Num 2, Num 1])] ! 0)) = []
        \<or> filter (\<lambda>x. x < 0)
             (snd (assign_longshort (run_generator\<lparr>longshort_split := 1\<rparr>)
                [(10987, [Num 2, Num 1])] ! 0)) = []"
    by (rule disjI2)
  show ?thesis
    using assign_weights_empty_leg [OF h1 h2] e by blast
qed

subsection \<open>Rows without a signal\<close>

lemma assign_longshort_row_undefined:
  "assign_longshort_row c (replicate n NaN) = replicate n (- 1)"
  by (simp add: assign_longshort_row_def fle_def)

lemma assign_weights_row_all_short:
  "assign_weights_row (replicate n (- 1)) = replicate n (Num (- (1 / real n)))"
proof -
  have "set (replicate n (- 1 :: int)) \<subseteq> {1, - 1}" by auto
  from assign_weights_row_explicit [OF this] show ?thesis by simp
qed

lemma length_rank_signals:
  "length (rank_signals g signal_df) = length (resample_first (rebalance_period g) signal_df)"
  by (simp add: rank_signals_def length_map_rows)

text \<open>
  Claim C10, as the code has it.  For a row of the resampled signal table whose signals
  are all undefined, the rank row is undefined in every column; \<open>_assign_longshort\<close> then
  puts every asset of the row in the short leg (\<open>-1\<close>), and the equal weighting gives each
  of the \<open>N\<close> assets the weight \<open>-1 / N\<close>.
\<close>

theorem undefined_signal_row_all_short:
  assumes "k < length (resample_first (rebalance_period g) signal_df)"
    and "resample_first (rebalance_period g) signal_df ! k = (d, vs)"
    and "set vs \<subseteq> {NaN}"
  shows "rank_signals g signal_df ! k = (d, replicate (length vs) NaN)
       \<and> assign_longshort g (rank_signals g signal_df) ! k = (d, replicate (length vs) (- 1))
       \<and> period_weights g signal_df ! k
           = (d, replicate (length vs) (Num (- (1 / real (length vs)))))"
proof -
  let ?R = "rank_signals g signal_df"
  have k: "k < length ?R"
    using assms(1) by (simp add: length_rank_signals)
  have rank: "?R ! k = (d, replicate (length vs) NaN)"
    using assms by (simp add: rank_signals_def nth_map_rows rank_row_undefined)
  have ls: "assign_longshort g ?R ! k = (d, replicate (length vs) (- 1))"
    using k rank by (simp add: nth_assign_longshort assign_longshort_row_undefined)
  have "period_weights g signal_df ! k
          = (d, replicate (length vs) (Num (- (1 / real (length vs)))))"
    using k ls
    by (simp add: period_weights_def nth_assign_weights length_assign_longshort
        assign_weights_row_all_short)
  with rank ls show ?thesis by simp
qed

text \<open>
  A signal table whose only row is undefined in both columns: the rank row is undefined,
  yet both assets are assigned to the short leg and each gets the weight \<open>-1/2\<close>.
\<close>

theorem undefined_signal_row_counterexample:
  "resample_first (rebalance_period run_generator) [(10959, [NaN, NaN])] = [(10987, [NaN, NaN])]
   \<and> rank_signals run_generator [(10959, [NaN, NaN])] = [(10987, [NaN, NaN])]
   \<and> assign_longshort run_generator (rank_signals run_generator [(10959, [NaN, NaN])])
       = [(10987, [- 1, - 1])]
   \<and> period_weights run_generator [(10959, [NaN, NaN])]
       = [(10987, [Num (- (1 / 2)), Num (- (1 / 2))])]"
  by code_simp

theorem undefined_signal_row_all_short_witness:
  "rank_signals run_generator [(10956, [NaN, NaN, NaN]), (10959, [Num 3, Num 1, Num 2])] ! 0
       = (10956, replicate (length [NaN, NaN, NaN]) NaN)
   \<and> assign_longshort run_generator
        (rank_signals run_generator [(10956, [NaN, NaN, NaN]), (10959, [Num 3, Num 1, Num 2])]) ! 0
       = (10956, replicate (length [NaN, NaN, NaN]) (- 1))
   \<and> period_weights run_generator [(10956, [NaN, NaN, NaN]), (10959, [Num 3, Num 1, Num 2])] ! 0
       = (10956, replicate (length [NaN, NaN, NaN]) (Num (- (1 / real (length [NaN, NaN, NaN])))))"
proof -
  have h1: "0 < length (resample_first (rebalance_period run_generator)
                 [(10956, [NaN, NaN, NaN]), (10959, [Num 3, Num 1, Num 2])])"
    by code_simp
  have h2: "resample_first (rebalance_period run_generator)
                 [(10956, [NaN, NaN, NaN]), (10959, [Num 3, Num 1, Num 2])] ! 0
             = (10956, [NaN, NaN, NaN])"
    by code_simp
  have h3: "set [NaN, NaN, NaN] \<subseteq> {NaN}"
    by simp
  show ?thesis
    by (rule undefined_signal_row_all_short [OF h1 h2 h3])
qed

section \<open>Properties of the pipeline\<close>

lemma leap_count_step:
  fixes a b c a' b' c' :: int
  assumes "a \<le> a'" "b' \<le> b + 1" "c \<le> c'"
  shows "a - b + c - 1 \<le> a' - b' + c'"
  using assms by (simp add: algebra_simps)

lemma month_start_step: "month_start k < month_start (k + 1)"
proof -
  define L where "L = (\<lambda>y :: int. y div 4 - y div 100 + y div 400)"
  define M where "M = (\<lambda>mp :: int. (153 * mp + 2) div 5)"
  define y where "y = k div 12"
  define mp where "mp = k mod 12"
  have k: "k = 12 * y + mp" and mp: "0 \<le> mp" "mp < 12"
    by (simp_all add: y_def mp_def)
  have start: "month_start j = 365 * (j div 12) + L (j div 12) + M (j mod 12) - 719468" for j
    by (simp add: month_start_def Let_def L_def M_def)
  show ?thesis
  proof (cases "mp = 11")
    case True
    have "k + 1 = 12 * (y + 1)" using k True by simp
    then have next_month: "(k + 1) div 12 = y + 1" "(k + 1) mod 12 = 0"
      by simp_all
    have a: "y div 4 \<le> (y + 1) div 4"
      by (rule zdiv_mono1) simp_all
    have c: "y div 400 \<le> (y + 1) div 400"
      by (rule zdiv_mono1) simp_all
    have "(y + 1) div 100 \<le> (y + 100) div 100"
      by (rule zdiv_mono1) simp_all
    also have "(y + 100) div 100 = y div 100 + 1"
      by (rule div_add_self2) simp
    finally have b: "(y + 1) div 100 \<le> y div 100 + 1" .
    have "L y - 1 \<le> L (y + 1)"
      unfolding L_def by (rule leap_count_step [OF a b c])
    moreover have "M 11 = 337" "M 0 = 0"
      by (simp_all add: M_def)
    ultimately show ?thesis
      unfolding start next_month using True
      by (simp add: y_def [symmetric] mp_def [symmetric])
  next
    case False
    then have "mp < 11" using mp by simp
    then have "(12 * y + mp + 1) div 12 = y" "(12 * y + mp + 1) mod 12 = mp + 1"
      using mp by (simp_all add: div_pos_pos_trivial mod_pos_pos_trivial add.assoc)
    then have next_month: "(k + 1) div 12 = y" "(k + 1) mod 12 = mp + 1"
      by (simp_all add: k)
    have "(153 * mp + 2 + 5 * 30) div 5 \<le> (153 * (mp + 1) + 2) div 5"
      by (rule zdiv_mono1) simp_all
    moreover have "(153 * mp + 2 + 5 * 30) div 5 = 30 + (153 * mp + 2) div 5"
      by (rule div_mult_self2) simp
    ultimately have "M mp + 30 \<le> M (mp + 1)"
      by (simp add: M_def)
    then show ?thesis
      unfolding start next_month
      by (simp add: y_def [symmetric] mp_def [symmetric])
  qed
qed

lemma increasing_from_step:
  fixes f :: "int \<Rightarrow> int"
  assumes "\<And>k. f k < f (k + 1)" and "a < b"
  shows "f a < f b"
  using assms(2)
proof (induction b rule: int_gr_induct)
  case base
  show ?case by (rule assms(1))
next
  case (step i)
  then show ?case using assms(1) [of i] by simp
qed

lemma increasing_labels_month_end: "increasing_labels month_end"
proof -
  have "month_start (a + 1) - 1 < month_start (b + 1) - 1" if "a < b" for a b
    using increasing_from_step [of month_start "a + 1" "b + 1"] month_start_step that by simp
  then show ?thesis by (simp add: increasing_labels_def month_end_def)
qed

lemma increasing_labels_month_begin: "increasing_labels month_begin"
  using increasing_from_step [of month_start] month_start_step
  by (simp add: increasing_labels_def month_begin_def)

lemma fst_map_rows: "map fst (map_rows f F) = map fst F"
  by (simp add: map_rows_def case_prod_beta comp_def)

lemma fst_resample_first:
  "map fst (resample_first f F) =
     (if F = [] then [] else map (label_of f) [bin_of f (fst (hd F))..bin_of f (fst (last F))])"
  by (simp add: resample_first_def comp_def)

lemma fst_period_weights:
  "map fst (period_weights g S) = map fst (resample_first (rebalance_period g) S)"
  by (simp add: period_weights_def assign_weights_def assign_longshort_def rank_signals_def
      fst_map_rows Let_def)

lemma sorted_period_weights:
  assumes "increasing_labels (rebalance_period g)"
  shows "sorted_wrt (<) (map fst (period_weights g S))"
proof -
  have "sorted_wrt (\<lambda>a b. label_of (rebalance_period g) a < label_of (rebalance_period g) b) [i..j]"
    for i j
    by (rule sorted_wrt_mono_rel [OF _ sorted_wrt_upto])
      (use assms in \<open>simp add: increasing_labels_def\<close>)
  then show ?thesis
    by (simp add: fst_period_weights fst_resample_first sorted_wrt_map)
qed

lemma fst_reindex_bfill: "map fst (reindex_bfill n W idx) = idx"
  by (simp add: reindex_bfill_def comp_def)

lemma nth_reindex_bfill:
  "i < length idx \<Longrightarrow>
   reindex_bfill n W idx ! i =
     (idx ! i, case find (\<lambda>(d, r). idx ! i \<le> d) W of
                 Some (d, r) \<Rightarrow> r | None \<Rightarrow> replicate n NaN)"
  by (simp add: reindex_bfill_def)

lemma find_backfill:
  fixes W :: "(int \<times> 'b) list"
  assumes sorted: "sorted_wrt (<) (map fst W)"
    and k: "k < length W" and le: "t \<le> fst (W ! k)"
    and prev: "k = 0 \<or> fst (W ! (k - 1)) < t"
  shows "find (\<lambda>(d, r). t \<le> d) W = Some (W ! k)"
proof -
  have "\<not> t \<le> fst (W ! j)" if "j < k" for j
  proof -
    from that prev have p: "fst (W ! (k - 1)) < t" by auto
    have "fst (W ! j) \<le> fst (W ! (k - 1))"
    proof (cases "j = k - 1")
      case True
      then show ?thesis by simp
    next
      case False
      then have "j < k - 1" "k - 1 < length (map fst W)" using that k by simp_all
      then have "map fst W ! j < map fst W ! (k - 1)"
        using sorted sorted_wrt_nth_less by blast
      then show ?thesis using that k by simp
    qed
    then show ?thesis using p by simp
  qed
  then show ?thesis
    unfolding find_Some_iff using k le by (auto simp: case_prod_beta)
qed

lemma find_after_last:
  fixes W :: "(int \<times> 'b) list"
  assumes sorted: "sorted_wrt (<) (map fst W)"
    and "W \<noteq> []" and late: "fst (last W) < t"
  shows "find (\<lambda>(d, r). t \<le> d) W = None"
proof -
  have "fst x \<le> fst (last W)" if "x \<in> set W" for x
  proof -
    from that obtain j where j: "j < length W" "W ! j = x"
      by (auto simp: in_set_conv_nth)
    show ?thesis
    proof (cases "j = length W - 1")
      case True
      then show ?thesis using j assms(2) by (simp add: last_conv_nth)
    next
      case False
      then have "j < length W - 1" "length W - 1 < length (map fst W)"
        using j by simp_all
      then have "map fst W ! j < map fst W ! (length W - 1)"
        using sorted sorted_wrt_nth_less by blast
      then show ?thesis using j assms(2) by (simp add: last_conv_nth)
    qed
  qed
  then show ?thesis
    unfolding find_None_iff using late by (fastforce simp: case_prod_beta)
qed

lemma length_map_cols: "length (map_cols f F) = length F"
  by (simp add: map_cols_def)

lemma fst_map_cols: "map fst (map_cols f F) = map fst F"
  by (rule nth_equalityI) (simp_all add: map_cols_def Let_def)

lemma MomentumSignalGenerator_Inr:
  assumes "MomentumSignalGenerator cfg = Inr cfg'"
  shows "cfg' = cfg" and "\<exists>n. cfg ''rolling_avg_days'' = Some n"
  using assms
  by (auto simp: MomentumSignalGenerator_def validate_config_params_def required_params_def
      split: if_splits sum.splits)

lemma generate_Inr:
  assumes "cfg ''rolling_avg_days'' = Some n"
  shows "generate cfg prices_df =
           Inr (map_cols (rolling_mean_col n (map fst prices_df)) (pct_change prices_df))"
  using assms by (simp add: generate_def prices_to_signal_def pct_change_def fst_map_cols)

lemma generate_weights_Inr:
  assumes "generate (signal_generator g) prices_df = Inr signal_df"
  shows "generate_weights g prices_df
           = Inr (reindex_bfill (ncols prices_df) (period_weights g signal_df) (map fst prices_df))"
  using assms by (simp add: generate_weights_def)

text \<open>
  Claim C5, as the code has it.  The daily table is back-filled: if \<open>d\<close> is a rebalance
  date with period-level weights \<open>w\<close>, every daily timestamp after the previous rebalance
  date (if there is one) and up to and including \<open>d\<close> holds \<open>w\<close>.  Weights are constant
  on such a span and change when a rebalance date has passed; the days after \<open>d\<close> take the
  weights of the next rebalance date.
\<close>

theorem daily_weights_backfilled:
  assumes "increasing_labels (rebalance_period g)"
    and "generate (signal_generator g) prices_df = Inr signal_df"
    and "k < length (period_weights g signal_df)"
    and "period_weights g signal_df ! k = (d, w)"
    and "i < length prices_df"
    and "fst (prices_df ! i) \<le> d"
    and "k = 0 \<or> fst (period_weights g signal_df ! (k - 1)) < fst (prices_df ! i)"
  shows "\<exists>D. generate_weights g prices_df = Inr D \<and> D ! i = (fst (prices_df ! i), w)"
proof -
  let ?W = "period_weights g signal_df"
  let ?t = "fst (prices_df ! i)"
  have le: "?t \<le> fst (?W ! k)" using assms(4,6) by simp
  have "find (\<lambda>(d, r). ?t \<le> d) ?W = Some (?W ! k)"
    by (rule find_backfill [OF sorted_period_weights [OF assms(1)] assms(3) le assms(7)])
  then have "reindex_bfill (ncols prices_df) ?W (map fst prices_df) ! i = (?t, w)"
    using assms(4,5) by (simp add: nth_reindex_bfill)
  then show ?thesis
    using generate_weights_Inr [OF assms(2)] by simp
qed

theorem daily_weights_backfilled_witness:
  "\<exists>D. generate_weights run_generator prices_two_months = Inr D
       \<and> D ! 2 = (fst (prices_two_months ! 2), [Num (- 1), Num 1])"
proof -
  let ?S = "[(10984, [NaN, NaN]), (10987, [Num (1 / 10), Num 0]),
             (10988, [Num (- (1 / 5)), Num 0]), (10989, [Num (- (2 / 15)), Num 0])]"
  have h1: "increasing_labels (rebalance_period run_generator)"
    by (simp add: run_generator_def increasing_labels_month_end)
  have h2: "generate (signal_generator run_generator) prices_two_months = Inr ?S"
    by code_simp
  have h3: "1 < length (period_weights run_generator ?S)"
    by code_simp
  have h4: "period_weights run_generator ?S ! 1 = (11016, [Num (- 1), Num 1])"
    by code_simp
  have h5: "2 < length prices_two_months"
    by code_simp
  have h6: "fst (prices_two_months ! 2) \<le> 11016"
    by code_simp
  have h7: "(1 :: nat) = 0 \<or> fst (period_weights run_generator ?S ! (1 - 1)) < fst (prices_two_months ! 2)"
    by code_simp
  show ?thesis
    by (rule daily_weights_backfilled [OF h1 h2 h3 h4 h5 h6 h7])
qed

text \<open>
  On \<open>prices_two_months\<close> the weights decided on the rebalance date 2000-01-31 are
  \<open>(+1, -1)\<close> and the next rebalance date is 2000-02-29, yet the daily rows of
  2000-02-01 and 2000-02-02 hold \<open>(-1, +1)\<close>, the weights of 2000-02-29.
\<close>

theorem daily_weights_next_period_counterexample:
  "generate (signal_generator run_generator) prices_two_months
     = Inr [(10984, [NaN, NaN]), (10987, [Num (1 / 10), Num 0]),
            (10988, [Num (- (1 / 5)), Num 0]), (10989, [Num (- (2 / 15)), Num 0])]
   \<and> period_weights run_generator
         [(10984, [NaN, NaN]), (10987, [Num (1 / 10), Num 0]),
          (10988, [Num (- (1 / 5)), Num 0]), (10989, [Num (- (2 / 15)), Num 0])]
       = [(10987, [Num 1, Num (- 1)]), (11016, [Num (- 1), Num 1])]
   \<and> generate_weights run_generator prices_two_months
       = Inr [(10984, [Num 1, Num (- 1)]), (10987, [Num 1, Num (- 1)]),
              (10988, [Num (- 1), Num 1]), (10989, [Num (- 1), Num 1])]"
  by code_simp

text \<open>
  Claim C6, as the code has it.  Every trading day on or before the first rebalance date,
  so every day strictly before it, holds the weights of the first rebalance date.  The
  days left undefined by the back-fill are those strictly after the last rebalance date.
\<close>

theorem daily_weights_outside_rebalance_dates:
  assumes "increasing_labels (rebalance_period g)"
    and "generate (signal_generator g) prices_df = Inr signal_df"
    and "period_weights g signal_df = (d0, w0) # rest"
    and "i < length prices_df"
  shows "\<exists>D. generate_weights g prices_df = Inr D
           \<and> (fst (prices_df ! i) \<le> d0 \<longrightarrow> D ! i = (fst (prices_df ! i), w0))
           \<and> (fst (last (period_weights g signal_df)) < fst (prices_df ! i) \<longrightarrow>
                D ! i = (fst (prices_df ! i), replicate (ncols prices_df) NaN))"
proof -
  let ?W = "period_weights g signal_df"
  let ?t = "fst (prices_df ! i)"
  let ?D = "reindex_bfill (ncols prices_df) ?W (map fst prices_df)"
  have D: "generate_weights g prices_df = Inr ?D"
    by (rule generate_weights_Inr [OF assms(2)])
  have early: "?D ! i = (?t, w0)" if "?t \<le> d0"
    using that assms(3,4) by (simp add: nth_reindex_bfill)
  have late: "?D ! i = (?t, replicate (ncols prices_df) NaN)" if "fst (last ?W) < ?t"
  proof -
    have ne: "?W \<noteq> []" using assms(3) by simp
    have "find (\<lambda>(d, r). ?t \<le> d) ?W = None"
      by (rule find_after_last [OF sorted_period_weights [OF assms(1)] ne that])
    then show ?thesis using assms(4) by (simp add: nth_reindex_bfill)
  qed
  show ?thesis using D early late by blast
qed

theorem daily_weights_outside_rebalance_dates_witness:
  "(\<exists>D. generate_weights (run_generator\<lparr>rebalance_period := month_begin\<rparr>)
            [(10988, [Num 100, Num 100]), (10989, [Num 110, Num 100])] = Inr D
        \<and> D ! 0 = (10988, [Num 1, Num (- 1)]))
   \<and> (\<exists>D. generate_weights (run_generator\<lparr>rebalance_period := month_begin\<rparr>)
            [(10988, [Num 100, Num 100]), (10989, [Num 110, Num 100])] = Inr D
        \<and> D ! 1 = (10989, [NaN, NaN]))"
proof -
  let ?g = "run_generator\<lparr>rebalance_period := month_begin\<rparr>"
  let ?P = "[(10988, [Num 100, Num 100]), (10989, [Num 110, Num 100])] :: val frame"
  let ?S = "[(10988, [NaN, NaN]), (10989, [Num (1 / 10), Num 0])]"
  have h1: "increasing_labels (rebalance_period ?g)"
    by (simp add: increasing_labels_month_begin)
  have h2: "generate (signal_generator ?g) ?P = Inr ?S"
    by code_simp
  have h3: "period_weights ?g ?S = (10988, [Num 1, Num (- 1)]) # []"
    by code_simp
  have i0: "0 < length ?P" and i1: "1 < length ?P"
    by simp_all
  have early: "fst (?P ! 0) \<le> 10988" "fst (?P ! 0) = 10988"
    by simp_all
  have late: "fst (last (period_weights ?g ?S)) < fst (?P ! 1)" "fst (?P ! 1) = 10989"
    by (simp_all add: h3)
  have nan: "replicate (ncols ?P) NaN = [NaN, NaN]"
    by (simp add: ncols_def numeral_2_eq_2)
  have "\<exists>D. generate_weights ?g ?P = Inr D \<and> D ! 0 = (10988, [Num 1, Num (- 1)])"
    using daily_weights_outside_rebalance_dates [OF h1 h2 h3 i0] early by metis
  moreover have "\<exists>D. generate_weights ?g ?P = Inr D \<and> D ! 1 = (10989, [NaN, NaN])"
    using daily_weights_outside_rebalance_dates [OF h1 h2 h3 i1] late nan by metis
  ultimately show ?thesis by (rule conjI)
qed

text \<open>
  On \<open>prices_january\<close> the only rebalance date is 2000-01-31; the three trading days lie
  strictly before it and each holds the position \<open>(+1, -1)\<close>.
\<close>

theorem daily_weights_before_first_rebalance_counterexample:
  "generate (signal_generator run_generator) prices_january
     = Inr [(10959, [NaN, NaN]), (10960, [Num (1 / 10), Num 0]),
            (10961, [Num (1 / 10), Num (- (1 / 20))])]
   \<and> period_weights run_generator
         [(10959, [NaN, NaN]), (10960, [Num (1 / 10), Num 0]),
          (10961, [Num (1 / 10), Num (- (1 / 20))])]
       = [(10987, [Num 1, Num (- 1)])]
   \<and> generate_weights run_generator prices_january
       = Inr [(10959, [Num 1, Num (- 1)]), (10960, [Num 1, Num (- 1)]),
              (10961, [Num 1, Num (- 1)])]"
  by code_simp

text \<open>
  Claim C9, as the code has it.  \<open>generate_weights\<close> raises nothing of its own: for a
  signal generator that passed its constructor it returns, for every price table, a daily
  weight table over exactly the timestamps of the price table, which is empty when the
  price table is.
\<close>

theorem generate_weights_returns_table:
  assumes "MomentumSignalGenerator cfg = Inr (signal_generator g)"
  shows "\<exists>D. generate_weights g prices_df = Inr D
           \<and> map fst D = map fst prices_df
           \<and> (D = []) = (prices_df = [])"
proof -
  obtain n where "signal_generator g ''rolling_avg_days'' = Some n"
    using MomentumSignalGenerator_Inr [OF assms] by auto
  then obtain S where "generate (signal_generator g) prices_df = Inr S"
    using generate_Inr by blast
  then have D: "generate_weights g prices_df
           = Inr (reindex_bfill (ncols prices_df) (period_weights g S) (map fst prices_df))"
    by (rule generate_weights_Inr)
  moreover have "map fst (reindex_bfill (ncols prices_df) (period_weights g S) (map fst prices_df))
           = map fst prices_df"
    by (rule fst_reindex_bfill)
  moreover have "(reindex_bfill (ncols prices_df) (period_weights g S) (map fst prices_df) = [])
           = (prices_df = [])"
    by (simp add: reindex_bfill_def)
  ultimately show ?thesis by blast
qed

theorem generate_weights_returns_table_witness:
  "\<exists>D. generate_weights run_generator prices_january = Inr D
       \<and> map fst D = map fst prices_january
       \<and> (D = []) = (prices_january = [])"
proof -
  have h: "MomentumSignalGenerator [''rolling_avg_days'' \<mapsto> 252] = Inr (signal_generator run_generator)"
    by (simp add: MomentumSignalGenerator_def validate_config_params_def required_params_def
        run_generator_def)
  show ?thesis
    by (rule generate_weights_returns_table [OF h])
qed

text \<open>
  For the empty price table resampling yields no row and the empty weight table is
  returned.  For a history of a single day the only resampled row has no defined signal,
  and a weight table is returned all the same.
\<close>

theorem generate_weights_empty_counterexample:
  "generate (signal_generator run_generator) [] = Inr []
   \<and> resample_first (rebalance_period run_generator) [] = []
   \<and> generate_weights run_generator [] = Inr []
   \<and> generate (signal_generator run_generator) [(10987, [Num 100, Num 100])]
       = Inr [(10987, [NaN, NaN])]
   \<and> generate_weights run_generator [(10987, [Num 100, Num 100])]
       = Inr [(10987, [Num (- (1 / 2)), Num (- (1 / 2))])]"
  by code_simp

section \<open>Properties of the signal\<close>

subsection \<open>Columns\<close>

lemma length_col: "length (col c F) = length F"
  by (simp add: col_def)

lemma nth_map_cols:
  "i < length F \<Longrightarrow>
   map_cols f F ! i = (fst (F ! i), map (\<lambda>c. f (col c F) ! i) [0..<ncols F])"
  by (simp add: map_cols_def Let_def comp_def)

lemma cell_map_cols:
  "i < length F \<Longrightarrow> c < ncols F \<Longrightarrow> snd (map_cols f F ! i) ! c = f (col c F) ! i"
  by (simp add: nth_map_cols)

lemma row_length_map_cols:
  "i < length F \<Longrightarrow> length (snd (map_cols f F ! i)) = ncols F"
  by (simp add: nth_map_cols)

lemma ncols_map_cols: "ncols (map_cols f F) = ncols F"
proof (cases F)
  case Nil
  then show ?thesis by (simp add: map_cols_def ncols_def)
next
  case (Cons a F')
  then have "0 < length F" by simp
  then have "map_cols f F ! 0 = (fst (F ! 0), map (\<lambda>c. f (col c F) ! 0) [0..<ncols F])"
    by (rule nth_map_cols)
  moreover have "map_cols f F \<noteq> []"
    using Cons length_map_cols [of f F] by auto
  ultimately show ?thesis
    by (cases "map_cols f F") (auto simp: ncols_def)
qed

lemma col_map_cols:
  assumes "c < ncols F" and "length (f (col c F)) = length F"
  shows "col c (map_cols f F) = f (col c F)"
proof (rule nth_equalityI)
  show "length (col c (map_cols f F)) = length (f (col c F))"
    using assms(2) by (simp add: length_col length_map_cols)
next
  fix i
  assume "i < length (col c (map_cols f F))"
  then have i: "i < length F"
    by (simp add: length_col length_map_cols)
  then have "col c (map_cols f F) ! i = snd (map_cols f F ! i) ! c"
    by (simp add: col_def length_map_cols case_prod_beta)
  then show "col c (map_cols f F) ! i = f (col c F) ! i"
    using i assms(1) by (simp add: cell_map_cols)
qed

subsection \<open>Forward fill and percent change\<close>

lemma length_ffill_from: "length (ffill_from prev xs) = length xs"
  by (induction xs arbitrary: prev) (simp_all add: Let_def)

lemma ffill_from_nth:
  assumes "list_all valid_price xs" and "valid_price prev" and "i < length xs"
  shows "valid_price (ffill_from prev xs ! i)
       \<and> (ffill_from prev xs ! i = NaN) = (prev = NaN \<and> (\<forall>j<Suc i. xs ! j = NaN))"
  using assms
proof (induction xs arbitrary: prev i)
  case Nil
  then show ?case by simp
next
  case (Cons x xs)
  let ?y = "if x = NaN then prev else x"
  have y: "valid_price ?y" "(?y = NaN) = (prev = NaN \<and> x = NaN)"
    using Cons.prems by auto
  show ?case
  proof (cases i)
    case 0
    then show ?thesis using y by (simp add: Let_def)
  next
    case (Suc i')
    then have "i' < length xs" "list_all valid_price xs"
      using Cons.prems by simp_all
    from Cons.IH [OF this(2) y(1) this(1)]
    have "valid_price (ffill_from ?y xs ! i')"
      and "(ffill_from ?y xs ! i' = NaN) = (?y = NaN \<and> (\<forall>j<Suc i'. xs ! j = NaN))"
      by simp_all
    moreover have "(\<forall>j<Suc i. (x # xs) ! j = NaN) = (x = NaN \<and> (\<forall>j<Suc i'. xs ! j = NaN))"
      unfolding Suc by (subst All_less_Suc2) simp
    ultimately show ?thesis
      using Suc y(2) by (simp add: Let_def)
  qed
qed

lemma length_shift1: "length (shift1 xs) = length xs"
  by (cases xs) (simp_all add: shift1_def)

lemma nth_shift1:
  "i < length xs \<Longrightarrow> shift1 xs ! i = (if i = 0 then NaN else xs ! (i - 1))"
  by (cases i) (auto simp: shift1_def nth_butlast)

lemma length_pct_change_col: "length (pct_change_col xs) = length xs"
  by (simp add: pct_change_col_def Let_def length_ffill_from length_shift1)

lemma nth_pct_change_col:
  assumes "i < length xs"
  shows "pct_change_col xs ! i =
           (if i = 0 then NaN
            else fsub (fdiv (ffill_from NaN xs ! i) (ffill_from NaN xs ! (i - 1))) (Num 1))"
proof -
  have "fsub (fdiv x NaN) (Num 1) = NaN" for x
    by (cases x) (simp_all add: fsub_def)
  then show ?thesis
    using assms
    by (simp add: pct_change_col_def Let_def length_ffill_from length_shift1 nth_shift1)
qed

lemma valid_price_cases:
  assumes "valid_price x"
  obtains "x = NaN" | p where "x = Num p" "p \<noteq> 0"
  using assms by (cases x) auto

lemma pct_change_col_defined:
  assumes "list_all valid_price xs" and "i < length xs"
  shows "(pct_change_col xs ! i = NaN) = (\<forall>j<i. xs ! j = NaN)"
    and "finite_val (pct_change_col xs ! i) = (\<exists>j<i. xs ! j \<noteq> NaN)"
proof -
  let ?d = "ffill_from NaN xs"
  have d: "valid_price (?d ! k)" "(?d ! k = NaN) = (\<forall>j<Suc k. xs ! j = NaN)"
    if "k < length xs" for k
    using ffill_from_nth [OF assms(1) _ that, of NaN] by simp_all
  have "(pct_change_col xs ! i = NaN) = (\<forall>j<i. xs ! j = NaN)
      \<and> finite_val (pct_change_col xs ! i) = (\<exists>j<i. xs ! j \<noteq> NaN)"
  proof (cases i)
    case 0
    then show ?thesis using assms(2) by (simp add: nth_pct_change_col)
  next
    case (Suc k)
    then have k: "k < length xs" using assms(2) by simp
    have pct: "pct_change_col xs ! i = fsub (fdiv (?d ! i) (?d ! k)) (Num 1)"
      using assms(2) Suc by (simp add: nth_pct_change_col)
    show ?thesis
    proof (cases "?d ! k = NaN")
      case True
      then have "\<forall>j<i. xs ! j = NaN" using d(2) [OF k] Suc by simp
      moreover have "fsub (fdiv x NaN) (Num 1) = NaN" for x
        by (cases x) (simp_all add: fsub_def)
      ultimately show ?thesis using pct True by auto
    next
      case False
      then have ex: "\<exists>j<i. xs ! j \<noteq> NaN" using d(2) [OF k] Suc by simp
      then have "\<exists>j<Suc i. xs ! j \<noteq> NaN" using less_Suc_eq by blast
      then have "?d ! i \<noteq> NaN" using d(2) [OF assms(2)] by blast
      then obtain p where p: "?d ! i = Num p"
        using d(1) [OF assms(2)] by (auto elim: valid_price_cases)
      obtain q where q: "?d ! k = Num q" "q \<noteq> 0"
        using d(1) [OF k] False by (auto elim: valid_price_cases)
      have "pct_change_col xs ! i = Num (p / q - 1)"
        using pct p q by (simp add: fsub_def)
      then show ?thesis using ex by auto
    qed
  qed
  then show "(pct_change_col xs ! i = NaN) = (\<forall>j<i. xs ! j = NaN)"
    and "finite_val (pct_change_col xs ! i) = (\<exists>j<i. xs ! j \<noteq> NaN)"
    by simp_all
qed

subsection \<open>Rolling mean\<close>

lemma finite_val_iff: "finite_val x = (\<exists>r. x = Num r)"
  by (cases x) simp_all

lemma foldr_fadd_finite:
  "list_all finite_val zs \<Longrightarrow> finite_val (foldr fadd zs (Num 0))"
  by (induction zs) (auto simp: finite_val_iff)

lemma window_mean_finite:
  assumes "y \<in> set ys" and "finite_val y"
  shows "finite_val (window_mean ys)"
proof -
  let ?zs = "filter finite_val ys"
  have ne: "?zs \<noteq> []" using assms by (auto simp: filter_empty_conv)
  have "list_all finite_val ?zs" by (simp add: list_all_iff)
  then obtain s where "foldr fadd ?zs (Num 0) = Num s"
    using foldr_fadd_finite finite_val_iff by blast
  then show ?thesis using ne by (simp add: window_mean_def Let_def)
qed

lemma window_mean_undefined:
  assumes "\<forall>y\<in>set ys. \<not> finite_val y"
  shows "window_mean ys = NaN"
  using assms by (simp add: window_mean_def Let_def filter_empty_conv)

lemma nth_rolling_mean_col:
  "i < length xs \<Longrightarrow>
   rolling_mean_col n ts xs ! i =
     window_mean (map (\<lambda>j. xs ! j) (filter (\<lambda>j. ts ! i - int n < ts ! j) [0..<Suc i]))"
  by (simp add: rolling_mean_col_def del: upt_Suc)

lemma rolling_mean_col_defined:
  assumes "i < length xs" and "0 < n" and "finite_val (xs ! i)"
  shows "finite_val (rolling_mean_col n ts xs ! i)"
proof -
  let ?win = "filter (\<lambda>j. ts ! i - int n < ts ! j) [0..<Suc i]"
  have "i \<in> set ?win" using assms(2) by simp
  then have "xs ! i \<in> (\<lambda>j. xs ! j) ` set ?win" by (rule imageI)
  then have "xs ! i \<in> set (map (\<lambda>j. xs ! j) ?win)" by (simp only: set_map)
  then have "finite_val (window_mean (map (\<lambda>j. xs ! j) ?win))"
    using assms(3) by (rule window_mean_finite)
  then show ?thesis by (simp only: nth_rolling_mean_col [OF assms(1)])
qed

lemma rolling_mean_col_undefined:
  assumes "i < length xs" and "\<forall>j<Suc i. \<not> finite_val (xs ! j)"
  shows "rolling_mean_col n ts xs ! i = NaN"
proof -
  let ?win = "filter (\<lambda>j. ts ! i - int n < ts ! j) [0..<Suc i]"
  have "\<forall>y\<in>set (map (\<lambda>j. xs ! j) ?win). \<not> finite_val y"
    using assms(2) by (auto simp del: upt_Suc)
  then have "window_mean (map (\<lambda>j. xs ! j) ?win) = NaN"
    by (rule window_mean_undefined)
  then show ?thesis by (simp only: nth_rolling_mean_col [OF assms(1)])
qed

subsection \<open>The momentum signal\<close>

lemma valid_prices_col:
  "valid_prices P \<Longrightarrow> c < ncols P \<Longrightarrow> list_all valid_price (col c P)"
  by (simp add: valid_prices_def list_all_iff)

lemma signal_cell:
  assumes "i < length P" and "c < ncols P"
  shows "snd (map_cols (rolling_mean_col n (map fst P)) (pct_change P) ! i) ! c
           = rolling_mean_col n (map fst P) (pct_change_col (col c P)) ! i"
proof -
  have "col c (pct_change P) = pct_change_col (col c P)"
    unfolding pct_change_def using assms(2)
    by (rule col_map_cols) (simp add: length_pct_change_col length_col)
  moreover have "i < length (pct_change P)" "c < ncols (pct_change P)"
    using assms by (simp_all add: pct_change_def length_map_cols ncols_map_cols)
  ultimately show ?thesis by (simp add: cell_map_cols)
qed

text \<open>
  Claim C7, as the code has it.  For a price table whose cells are missing or finite and
  non-zero, and any \<open>rolling_avg_days\<close> of at least 1, the signal table has the timestamps
  and the asset columns of the price table, and for every asset the signal is undefined
  exactly on the rows up to and including the asset's first priced row, and a finite number
  on every later row.  For an asset priced from the first row on, only the first row is
  undefined: a duration window needs a single observation, whatever its length.
\<close>

theorem signal_shape_and_warmup:
  assumes "cfg ''rolling_avg_days'' = Some n" and "0 < n" and "valid_prices P"
  shows "\<exists>S. generate cfg P = Inr S
           \<and> map fst S = map fst P
           \<and> (\<forall>i<length P. length (snd (S ! i)) = ncols P)
           \<and> (\<forall>i<length P. \<forall>c<ncols P.
                 (snd (S ! i) ! c = NaN) = (\<forall>j<i. col c P ! j = NaN)
                 \<and> finite_val (snd (S ! i) ! c) = (\<exists>j<i. col c P ! j \<noteq> NaN))"
proof -
  let ?S = "map_cols (rolling_mean_col n (map fst P)) (pct_change P)"
  have S: "generate cfg P = Inr ?S"
    using assms(1) by (rule generate_Inr)
  have index: "map fst ?S = map fst P"
    by (simp add: fst_map_cols pct_change_def)
  have width: "length (snd (?S ! i)) = ncols P" if "i < length P" for i
    using that by (simp add: row_length_map_cols pct_change_def length_map_cols ncols_map_cols)
  have cell: "(snd (?S ! i) ! c = NaN) = (\<forall>j<i. col c P ! j = NaN)
      \<and> finite_val (snd (?S ! i) ! c) = (\<exists>j<i. col c P ! j \<noteq> NaN)"
    if i: "i < length P" and c: "c < ncols P" for i c
  proof -
    let ?xs = "col c P"
    let ?pct = "pct_change_col ?xs"
    have valid: "list_all valid_price ?xs"
      by (rule valid_prices_col [OF assms(3) c])
    have len: "i < length ?xs" "i < length ?pct"
      using i by (simp_all add: length_col length_pct_change_col)
    have sig: "snd (?S ! i) ! c = rolling_mean_col n (map fst P) ?pct ! i"
      by (rule signal_cell [OF i c])
    show ?thesis
    proof (cases "\<exists>j<i. ?xs ! j \<noteq> NaN")
      case True
      then have "finite_val (?pct ! i)"
        using pct_change_col_defined(2) [OF valid len(1)] by simp
      then have "finite_val (rolling_mean_col n (map fst P) ?pct ! i)"
        by (rule rolling_mean_col_defined [OF len(2) assms(2)])
      then show ?thesis using True sig by (auto simp: finite_val_iff)
    next
      case False
      have "\<not> finite_val (?pct ! k)" if "k < Suc i" for k
      proof -
        have "k < length ?xs" using that len(1) by simp
        moreover have "\<not> (\<exists>j<k. ?xs ! j \<noteq> NaN)" using False that by auto
        ultimately show ?thesis
          using pct_change_col_defined(2) [OF valid] by blast
      qed
      then have "rolling_mean_col n (map fst P) ?pct ! i = NaN"
        using rolling_mean_col_undefined [OF len(2)] by blast
      then show ?thesis using False sig by simp
    qed
  qed
  show ?thesis using S index width cell by blast
qed

theorem signal_shape_and_warmup_witness:
  "\<exists>S. generate (signal_generator run_generator) prices_january = Inr S
       \<and> map fst S = map fst prices_january
       \<and> (\<forall>i<length prices_january. length (snd (S ! i)) = ncols prices_january)
       \<and> (\<forall>i<length prices_january. \<forall>c<ncols prices_january.
             (snd (S ! i) ! c = NaN) = (\<forall>j<i. col c prices_january ! j = NaN)
             \<and> finite_val (snd (S ! i) ! c) = (\<exists>j<i. col c prices_january ! j \<noteq> NaN))"
proof -
  have h1: "signal_generator run_generator ''rolling_avg_days'' = Some 252"
    by (simp add: run_generator_def)
  have h2: "0 < (252 :: nat)"
    by simp
  have h3: "valid_prices prices_january"
    by code_simp
  show ?thesis
    using h1 h2 h3 by (rule signal_shape_and_warmup)
qed

text \<open>
  With \<open>rolling_avg_days=252\<close> the signal of \<open>prices_january\<close> is defined on the second
  trading day, one day after the start of the series.
\<close>

theorem signal_warmup_counterexample:
  "signal_generator run_generator ''rolling_avg_days'' = Some 252
   \<and> generate (signal_generator run_generator) prices_january
       = Inr [(10959, [NaN, NaN]),
              (10960, [Num (1 / 10), Num 0]),
              (10961, [Num (1 / 10), Num (- (1 / 20))])]"
  by code_simp

section \<open>Properties of the backtester\<close>

subsection \<open>Cumulative product\<close>

lemma finite_or_nan_cases:
  assumes "finite_or_nan x"
  obtains "x = NaN" | r where "x = Num r"
  using assms by (cases x) auto

lemma cumprod_from_nth:
  assumes "list_all finite_or_nan xs" and "t < length xs"
  shows "cumprod_from (Num c) xs ! t =
           (if xs ! t = NaN then NaN
            else Num (c * (\<Prod>x\<leftarrow>filter (\<lambda>x. x \<noteq> NaN) (take (Suc t) xs). num_of x)))"
  using assms
proof (induction xs arbitrary: c t)
  case Nil
  then show ?case by simp
next
  case (Cons x xs)
  from Cons.prems(1) have "finite_or_nan x" and rest: "list_all finite_or_nan xs"
    by simp_all
  then show ?case
  proof (cases rule: finite_or_nan_cases)
    case 1
    show ?thesis
    proof (cases t)
      case 0
      then show ?thesis using 1 by simp
    next
      case (Suc t')
      then have "t' < length xs" using Cons.prems(2) by simp
      from Cons.IH [OF rest this, of c] show ?thesis using 1 Suc by simp
    qed
  next
    case (2 r)
    show ?thesis
    proof (cases t)
      case 0
      then show ?thesis using 2 by simp
    next
      case (Suc t')
      then have "t' < length xs" using Cons.prems(2) by simp
      from Cons.IH [OF rest this, of "c * r"] show ?thesis
        using 2 Suc by (simp add: mult.assoc)
    qed
  qed
qed

lemma nansum_finite_or_nan:
  assumes "list_all finite_or_nan xs"
  shows "nansum xs = Num (\<Sum>x\<leftarrow>filter (\<lambda>x. x \<noteq> NaN) xs. num_of x)"
proof -
  have "foldr fadd (filter (\<lambda>x. x \<noteq> NaN) xs) (Num 0)
          = Num (\<Sum>x\<leftarrow>filter (\<lambda>x. x \<noteq> NaN) xs. num_of x)"
    using assms
  proof (induction xs)
    case Nil
    then show ?case by simp
  next
    case (Cons x xs)
    then have "finite_or_nan x" by simp
    then show ?case using Cons by (cases rule: finite_or_nan_cases) simp_all
  qed
  then show ?thesis by (simp add: nansum_def)
qed

subsection \<open>Cells of the intermediate tables\<close>

lemma ncols_nth0: "F \<noteq> [] \<Longrightarrow> ncols F = length (snd (F ! 0))"
  by (cases F) (auto simp: ncols_def)

lemma length_frame_map2: "length (frame_map2 f A B) = min (length A) (length B)"
  by (simp add: frame_map2_def)

lemma nth_frame_map2:
  "t < length A \<Longrightarrow> t < length B \<Longrightarrow>
   frame_map2 f A B ! t = (fst (A ! t), map2 f (snd (A ! t)) (snd (B ! t)))"
  by (simp add: frame_map2_def case_prod_beta)

lemma length_pct_change: "length (pct_change P) = length P"
  by (simp add: pct_change_def length_map_cols)

lemma row_length_pct_change: "t < length P \<Longrightarrow> length (snd (pct_change P ! t)) = ncols P"
  by (simp add: pct_change_def row_length_map_cols)

lemma cell_pct_change:
  "t < length P \<Longrightarrow> a < ncols P \<Longrightarrow> cell (pct_change P) t a = pct_change_col (col a P) ! t"
  by (simp add: cell_def pct_change_def cell_map_cols)

lemma nth_col: "t < length F \<Longrightarrow> col a F ! t = cell F t a"
  by (simp add: col_def cell_def case_prod_beta)

lemma pct_change_finite_or_nan:
  assumes "valid_prices P" and "t < length P" and "a < ncols P"
  shows "finite_or_nan (cell (pct_change P) t a)"
proof -
  let ?x = "pct_change_col (col a P) ! t"
  have valid: "list_all valid_price (col a P)"
    by (rule valid_prices_col [OF assms(1,3)])
  have t: "t < length (col a P)" using assms(2) by (simp add: length_col)
  have "?x = NaN \<or> finite_val ?x"
    using pct_change_col_defined [OF valid t] by blast
  then have "finite_or_nan ?x"
    by (auto simp: finite_val_iff)
  then show ?thesis by (simp add: cell_pct_change [OF assms(2,3)])
qed

lemma fmul_finite_or_nan:
  "finite_or_nan x \<Longrightarrow> finite_or_nan y \<Longrightarrow> finite_or_nan (fmul x y)"
  by (cases x; cases y) simp_all

lemma fadd_one:
  assumes "finite_or_nan y"
  shows "finite_or_nan (fadd (Num 1) y)"
    and "(fadd (Num 1) y = NaN) = (y = NaN)"
    and "num_of (fadd (Num 1) y) = (if y = NaN then 0 else 1 + num_of y)"
  using assms by (cases y; simp)+

lemma daily_table_length: "daily_table W P \<Longrightarrow> length W = length P"
  unfolding daily_table_def by (blast dest: map_eq_imp_length_eq)

lemma daily_table_row:
  assumes "daily_table W P" and "t < length P"
  shows "length W = length P" and "fst (W ! t) = fst (P ! t)"
    and "length (snd (W ! t)) = ncols P"
    and "a < ncols P \<Longrightarrow> finite_or_nan (cell W t a)"
proof -
  have idx: "map fst W = map fst P" using assms(1) by (simp add: daily_table_def)
  then show len: "length W = length P" by (rule map_eq_imp_length_eq)
  then have t: "t < length W" using assms(2) by simp
  have "map fst W ! t = map fst P ! t" using idx by simp
  then show "fst (W ! t) = fst (P ! t)" using t assms(2) by simp
  have "W ! t \<in> set W" using t by simp
  then have row: "length (snd (W ! t)) = ncols P \<and> list_all finite_or_nan (snd (W ! t))"
    using assms(1) by (auto simp: daily_table_def list_all_iff)
  then show "length (snd (W ! t)) = ncols P" by simp
  show "finite_or_nan (cell W t a)" if "a < ncols P"
    using row that by (simp add: cell_def list_all_length)
qed

text \<open>The table \<open>1 + daily_weights * assets_daily_pct_change\<close>.\<close>

lemma growth_table:
  assumes "valid_prices P" and "daily_table W P"
  defines "X \<equiv> map_rows (map (fadd (Num 1))) (frame_map2 fmul W (pct_change P))"
  shows "length X = length P"
    and "t < length P \<Longrightarrow> fst (X ! t) = fst (P ! t)"
    and "t < length P \<Longrightarrow> length (snd (X ! t)) = ncols P"
    and "t < length P \<Longrightarrow> a < ncols P \<Longrightarrow>
           cell X t a = fadd (Num 1) (fmul (cell W t a) (cell (pct_change P) t a))"
    and "X \<noteq> [] \<Longrightarrow> ncols X = ncols P"
proof -
  let ?R = "pct_change P"
  have lenW: "length W = length P"
    by (rule daily_table_length [OF assms(2)])
  show len: "length X = length P"
    by (simp add: X_def length_map_rows length_frame_map2 lenW length_pct_change)
  have row: "X ! t = (fst (P ! t), map (fadd (Num 1)) (map2 fmul (snd (W ! t)) (snd (?R ! t))))"
    if "t < length P" for t
    using that daily_table_row(2) [OF assms(2) that]
    by (simp add: X_def nth_map_rows length_frame_map2 nth_frame_map2 lenW length_pct_change)
  show "fst (X ! t) = fst (P ! t)" if "t < length P"
    using row [OF that] by simp
  show width: "length (snd (X ! t)) = ncols P" if "t < length P" for t
    using row [OF that] daily_table_row(3) [OF assms(2) that] row_length_pct_change [OF that]
    by simp
  show "cell X t a = fadd (Num 1) (fmul (cell W t a) (cell ?R t a))"
    if "t < length P" "a < ncols P"
    using row [OF that(1)] daily_table_row(3) [OF assms(2) that(1)]
      row_length_pct_change [OF that(1)] that(2)
    by (simp add: cell_def)
  show "ncols X = ncols P" if "X \<noteq> []"
  proof -
    have "0 < length P" using that len by (cases X) auto
    then show ?thesis using width [of 0] ncols_nth0 [OF that] by simp
  qed
qed

lemma growth_col:
  assumes "valid_prices P" and "daily_table W P" and "a < ncols P"
  defines "X \<equiv> map_rows (map (fadd (Num 1))) (frame_map2 fmul W (pct_change P))"
  shows "col a X =
           map (\<lambda>s. fadd (Num 1) (fmul (cell W s a) (cell (pct_change P) s a))) [0..<length P]"
proof (rule nth_equalityI)
  show "length (col a X) =
      length (map (\<lambda>s. fadd (Num 1) (fmul (cell W s a) (cell (pct_change P) s a))) [0..<length P])"
    unfolding X_def by (simp add: length_col growth_table(1) [OF assms(1,2)])
next
  fix s
  assume "s < length (col a X)"
  then have s: "s < length P"
    unfolding X_def by (simp add: length_col growth_table(1) [OF assms(1,2)])
  then have "s < length X"
    unfolding X_def by (simp add: growth_table(1) [OF assms(1,2)])
  then have "col a X ! s = cell X s a" by (rule nth_col)
  also have "\<dots> = fadd (Num 1) (fmul (cell W s a) (cell (pct_change P) s a))"
    unfolding X_def by (rule growth_table(4) [OF assms(1,2) s assms(3)])
  finally show "col a X ! s =
      map (\<lambda>s. fadd (Num 1) (fmul (cell W s a) (cell (pct_change P) s a))) [0..<length P] ! s"
    using s by simp
qed

lemma weighted_return_finite_or_nan:
  assumes "valid_prices P" and "daily_table W P" and "s < length P" and "a < ncols P"
  shows "finite_or_nan (fmul (cell W s a) (cell (pct_change P) s a))"
  using daily_table_row(4) [OF assms(2,3,4)] pct_change_finite_or_nan [OF assms(1,3,4)]
  by (rule fmul_finite_or_nan)

lemma prod_list_growth:
  assumes "\<forall>s\<in>set ss. finite_or_nan (wr s)"
  shows "(\<Prod>x\<leftarrow>filter (\<lambda>x. x \<noteq> NaN) (map (\<lambda>s. fadd (Num 1) (wr s)) ss). num_of x)
           = (\<Prod>s\<leftarrow>filter (\<lambda>s. wr s \<noteq> NaN) ss. 1 + num_of (wr s))"
  using assms
proof (induction ss)
  case Nil
  then show ?case by simp
next
  case (Cons s ss)
  then have "finite_or_nan (wr s)" by simp
  then show ?case
    using Cons by (simp add: fadd_one)
qed

lemma cumprod_cell:
  assumes "valid_prices P" and "daily_table W P" and "t < length P" and "a < ncols P"
  defines "X \<equiv> map_rows (map (fadd (Num 1))) (frame_map2 fmul W (pct_change P))"
    and "wr \<equiv> \<lambda>s. fmul (cell W s a) (cell (pct_change P) s a)"
  shows "cell (cumprod X) t a =
           (if wr t = NaN then NaN
            else Num (\<Prod>s\<leftarrow>filter (\<lambda>s. wr s \<noteq> NaN) [0..<Suc t]. 1 + num_of (wr s)))"
proof -
  have wr: "finite_or_nan (wr s)" if "s < length P" for s
    unfolding wr_def by (rule weighted_return_finite_or_nan [OF assms(1,2) that assms(4)])
  have colX: "col a X = map (\<lambda>s. fadd (Num 1) (wr s)) [0..<length P]"
    unfolding X_def wr_def by (rule growth_col [OF assms(1,2,4)])
  have lenX: "length X = length P"
    unfolding X_def by (rule growth_table(1) [OF assms(1,2)])
  then have "X \<noteq> []" using assms(3) by auto
  then have "ncols X = ncols P"
    unfolding X_def by (rule growth_table(5) [OF assms(1,2)])
  then have "cell (cumprod X) t a = cumprod_from (Num 1) (col a X) ! t"
    using assms(3,4) lenX by (simp add: cell_def cumprod_def cell_map_cols)
  moreover have "list_all finite_or_nan (col a X)"
    using wr by (simp add: colX list_all_iff fadd_one(1))
  moreover have "t < length (col a X)"
    using assms(3) by (simp add: colX)
  ultimately have "cell (cumprod X) t a =
      (if col a X ! t = NaN then NaN
       else Num (1 * (\<Prod>x\<leftarrow>filter (\<lambda>x. x \<noteq> NaN) (take (Suc t) (col a X)). num_of x)))"
    by (simp only: cumprod_from_nth)
  moreover have "col a X ! t = fadd (Num 1) (wr t)"
    using assms(3) by (simp add: colX)
  moreover have "(fadd (Num 1) (wr t) = NaN) = (wr t = NaN)"
    by (rule fadd_one(2) [OF wr [OF assms(3)]])
  moreover have "take (Suc t) (col a X) = map (\<lambda>s. fadd (Num 1) (wr s)) [0..<Suc t]"
    using assms(3) by (simp add: colX take_map del: upt_Suc)
  moreover have "(\<Prod>x\<leftarrow>filter (\<lambda>x. x \<noteq> NaN) (map (\<lambda>s. fadd (Num 1) (wr s)) [0..<Suc t]). num_of x)
           = (\<Prod>s\<leftarrow>filter (\<lambda>s. wr s \<noteq> NaN) [0..<Suc t]. 1 + num_of (wr s))"
    using wr assms(3) by (intro prod_list_growth) (simp del: upt_Suc)
  ultimately show ?thesis by (simp del: upt_Suc)
qed

subsection \<open>Asset PnLs and their total\<close>

lemma asset_pnls_cells:
  assumes "valid_prices P" and "daily_table W P" and "t < length P"
  defines "wr \<equiv> \<lambda>s a. fmul (cell W s a) (cell (pct_change P) s a)"
  defines "pnl \<equiv> \<lambda>t a. if wr t a = NaN then NaN
                 else Num ((\<Prod>s\<leftarrow>filter (\<lambda>s. wr s a \<noteq> NaN) [0..<Suc t]. 1 + num_of (wr s a)) - 1)"
  shows "fst (get_pnls P W) ! t = (fst (P ! t), map (pnl t) [0..<ncols P])"
proof -
  let ?X = "map_rows (map (fadd (Num 1))) (frame_map2 fmul W (pct_change P))"
  let ?C = "cumprod ?X"
  have A: "fst (get_pnls P W) = map_rows (map (\<lambda>x. fsub x (Num 1))) ?C"
    by (simp add: get_pnls_def Let_def)
  have lenX: "length ?X = length P"
    by (rule growth_table(1) [OF assms(1,2)])
  then have tX: "t < length ?X" and "?X \<noteq> []" using assms(3) by auto
  then have ncolsX: "ncols ?X = ncols P"
    using growth_table(5) [OF assms(1,2)] by blast
  have tC: "t < length ?C" using tX by (simp add: cumprod_def length_map_cols)
  have rowC: "?C ! t = (fst (?X ! t), map (\<lambda>c. cumprod_from (Num 1) (col c ?X) ! t) [0..<ncols P])"
    using tX ncolsX by (simp add: cumprod_def nth_map_cols)
  have cellC: "cumprod_from (Num 1) (col a ?X) ! t =
      (if wr t a = NaN then NaN
       else Num (\<Prod>s\<leftarrow>filter (\<lambda>s. wr s a \<noteq> NaN) [0..<Suc t]. 1 + num_of (wr s a)))"
    if a: "a < ncols P" for a
  proof -
    have "cumprod_from (Num 1) (col a ?X) ! t = cell ?C t a"
      using rowC a by (simp add: cell_def)
    also have "\<dots> = (if wr t a = NaN then NaN
       else Num (\<Prod>s\<leftarrow>filter (\<lambda>s. wr s a \<noteq> NaN) [0..<Suc t]. 1 + num_of (wr s a)))"
      unfolding wr_def by (rule cumprod_cell [OF assms(1,2,3) a])
    finally show ?thesis .
  qed
  have "map (\<lambda>x. fsub x (Num 1)) (map (\<lambda>c. cumprod_from (Num 1) (col c ?X) ! t) [0..<ncols P])
          = map (pnl t) [0..<ncols P]"
    by (rule nth_equalityI) (simp_all add: cellC pnl_def fsub_def del: upt_Suc)
  moreover have "fst (?X ! t) = fst (P ! t)"
    by (rule growth_table(2) [OF assms(1,2,3)])
  ultimately show ?thesis
    using tC rowC by (simp add: A nth_map_rows del: upt_Suc)
qed

lemma length_get_pnls:
  assumes "valid_prices P" and "daily_table W P"
  shows "length (fst (get_pnls P W)) = length P"
    and "length (snd (get_pnls P W)) = length P"
  using growth_table(1) [OF assms]
  by (simp_all add: get_pnls_def Let_def length_map_rows cumprod_def length_map_cols)

lemma total_pnl_row:
  assumes "valid_prices P" and "daily_table W P" and "t < length P"
  shows "snd (get_pnls P W) ! t =
           (fst (P ! t),
            Num (\<Sum>a\<leftarrow>filter (\<lambda>a. cell (fst (get_pnls P W)) t a \<noteq> NaN) [0..<ncols P].
                   num_of (cell (fst (get_pnls P W)) t a)))"
proof -
  let ?A = "fst (get_pnls P W)"
  define row where "row = snd (?A ! t)"
  have "?A ! t = (fst (P ! t),
      map (\<lambda>a. if fmul (cell W t a) (cell (pct_change P) t a) = NaN then NaN
               else Num ((\<Prod>s\<leftarrow>filter (\<lambda>s. fmul (cell W s a) (cell (pct_change P) s a) \<noteq> NaN)
                              [0..<Suc t]. 1 + num_of (fmul (cell W s a) (cell (pct_change P) s a))) - 1))
        [0..<ncols P])"
    by (rule asset_pnls_cells [OF assms])
  then have row: "?A ! t = (fst (P ! t), row)" "length row = ncols P"
    "list_all finite_or_nan row"
    by (auto simp add: row_def list_all_iff simp del: upt_Suc)
  have "row = map (\<lambda>a. row ! a) [0..<length row]"
    by (simp add: map_nth)
  then have cells: "row = map (\<lambda>a. cell ?A t a) [0..<ncols P]"
    using row(1,2) by (simp add: cell_def)
  have "snd (get_pnls P W) ! t = (fst (P ! t), nansum row)"
    using row(1) assms(3) length_get_pnls(1) [OF assms(1,2)]
    by (simp add: get_pnls_def Let_def case_prod_beta)
  also have "nansum row = Num (\<Sum>x\<leftarrow>filter (\<lambda>x. x \<noteq> NaN) row. num_of x)"
    by (rule nansum_finite_or_nan [OF row(3)])
  also have "(\<Sum>x\<leftarrow>filter (\<lambda>x. x \<noteq> NaN) row. num_of x)
      = (\<Sum>a\<leftarrow>filter (\<lambda>a. cell ?A t a \<noteq> NaN) [0..<ncols P]. num_of (cell ?A t a))"
    by (subst cells) (simp add: filter_map comp_def)
  finally show ?thesis .
qed

subsection \<open>The shape of the daily weight table\<close>

lemma length_first_valid:
  "length acc = n \<Longrightarrow> length r = n \<Longrightarrow> length (first_valid acc r) = n"
  by (simp add: first_valid_def)

lemma length_foldl_first_valid:
  "length acc = n \<Longrightarrow> \<forall>r\<in>set rs. length r = n \<Longrightarrow> length (foldl first_valid acc rs) = n"
  by (induction rs arbitrary: acc) (simp_all add: length_first_valid)

lemma resample_first_rows:
  assumes "\<forall>x\<in>set S. length (snd x) = ncols S" and "x \<in> set (resample_first f S)"
  shows "length (snd x) = ncols S"
proof -
  have "length (foldl first_valid (replicate (ncols S) NaN)
                  (map snd (filter (\<lambda>(t, r). bin_of f t = b) S))) = ncols S" for b
    using assms(1) by (intro length_foldl_first_valid) auto
  then show ?thesis
    using assms(2) by (auto simp: resample_first_def split: if_splits)
qed

lemma map_cols_rows: "x \<in> set (map_cols f F) \<Longrightarrow> length (snd x) = ncols F"
  by (auto simp: map_cols_def Let_def)

lemma length_rank_row: "length (rank_row vs) = length vs"
  by (simp add: rank_row_def)

lemma length_assign_longshort_row: "length (assign_longshort_row c rk) = length rk"
  by (simp add: assign_longshort_row_def)

lemma length_assign_weights_row: "length (assign_weights_row ls) = length ls"
  by (simp add: assign_weights_row_def Let_def)

lemma period_weights_rows:
  assumes "x \<in> set (period_weights g S)"
  shows "\<exists>y\<in>set (resample_first (rebalance_period g) S).
           length (snd x) = length (snd y) \<and> list_all finite_val (snd x)"
proof -
  let ?M = "resample_first (rebalance_period g) S"
  let ?c = "Num (real (ncols (rank_signals g S)) * longshort_split g)"
  have "period_weights g S =
      map (\<lambda>(t, r). (t, assign_weights_row (assign_longshort_row ?c (rank_row r)))) ?M"
    by (simp add: period_weights_def assign_weights_def assign_longshort_def rank_signals_def
        map_rows_def Let_def case_prod_beta comp_def)
  then obtain y where y: "y \<in> set ?M"
    and x: "snd x = assign_weights_row (assign_longshort_row ?c (rank_row (snd y)))"
    using assms by (auto simp: case_prod_beta)
  have "length (snd x) = length (snd y)"
    by (simp add: x length_assign_weights_row length_assign_longshort_row length_rank_row)
  moreover have "list_all finite_val (snd x)"
    unfolding x by (rule assign_weights_row_sums(3) [OF set_assign_longshort_row])
  ultimately show ?thesis using y by blast
qed

lemma finite_val_imp_finite_or_nan: "finite_val x \<Longrightarrow> finite_or_nan x"
  by (cases x) simp_all

lemma generate_weights_daily_table:
  assumes "generate_weights g P = Inr W"
  shows "daily_table W P"
proof -
  obtain S where S: "generate (signal_generator g) P = Inr S"
    and W: "W = reindex_bfill (ncols P) (period_weights g S) (map fst P)"
    using assms by (auto simp: generate_weights_def split: sum.splits)
  obtain n where "S = map_cols (rolling_mean_col n (map fst (pct_change P))) (pct_change P)"
    using S by (auto simp: generate_def prices_to_signal_def Let_def split: option.splits)
  then have S_rows: "\<forall>x\<in>set S. length (snd x) = ncols S" and S_cols: "ncols S = ncols P"
    by (simp_all add: map_cols_rows ncols_map_cols pct_change_def)
  have weights: "length r = ncols P \<and> list_all finite_or_nan r"
    if "(d, r) \<in> set (period_weights g S)" for d r
  proof -
    from period_weights_rows [OF that] obtain y
      where "y \<in> set (resample_first (rebalance_period g) S)"
        and "length r = length (snd y)" and fin: "list_all finite_val r"
      by auto
    then have "length r = ncols P"
      using resample_first_rows [OF S_rows] S_cols by simp
    moreover have "list_all finite_or_nan r"
      using fin by (auto simp: list_all_iff intro: finite_val_imp_finite_or_nan)
    ultimately show ?thesis by simp
  qed
  have row: "length r = ncols P \<and> list_all finite_or_nan r"
    if "(t, r) \<in> set W" for t r
  proof -
    from that have r: "r = (case find (\<lambda>(d, r). t \<le> d) (period_weights g S) of
        Some (d, r) \<Rightarrow> r | None \<Rightarrow> replicate (ncols P) NaN)"
      by (auto simp: W reindex_bfill_def)
    show ?thesis
    proof (cases "find (\<lambda>(d, r). t \<le> d) (period_weights g S)")
      case None
      then show ?thesis using r by (simp add: list_all_iff)
    next
      case (Some x)
      then have "x \<in> set (period_weights g S)"
        unfolding find_Some_iff by (metis nth_mem)
      then show ?thesis
        using weights [of "fst x" "snd x"] r Some by (simp add: case_prod_beta)
    qed
  qed
  have "map fst W = map fst P"
    by (simp add: W fst_reindex_bfill)
  then show ?thesis
    using row by (auto simp: daily_table_def list_all_iff)
qed

lemma ffill_from_defined:
  "i < length xs \<Longrightarrow> xs ! i \<noteq> NaN \<Longrightarrow> ffill_from prev xs ! i = xs ! i"
proof (induction xs arbitrary: prev i)
  case Nil
  then show ?case by simp
next
  case (Cons x xs)
  then show ?case by (cases i) (simp_all add: Let_def)
qed

lemma pct_change_simple:
  assumes "valid_prices P" and "t < length P" and "a < ncols P" and "0 < t"
    and "cell P t a = Num p" and "cell P (t - 1) a = Num q"
  shows "cell (pct_change P) t a = Num (p / q - 1)"
proof -
  let ?xs = "col a P"
  have t: "t < length ?xs" "t - 1 < length ?xs"
    using assms(2) by (simp_all add: length_col)
  have cur: "?xs ! t = Num p" and prev: "?xs ! (t - 1) = Num q"
    using assms(2,5,6) by (simp_all add: nth_col)
  have "list_all valid_price ?xs"
    by (rule valid_prices_col [OF assms(1,3)])
  then have "valid_price (?xs ! (t - 1))"
    using t(2) by (simp add: list_all_length)
  then have q: "q \<noteq> 0" using prev by simp
  have "ffill_from NaN ?xs ! t = Num p" "ffill_from NaN ?xs ! (t - 1) = Num q"
    using ffill_from_defined [OF t(1)] ffill_from_defined [OF t(2)] cur prev by simp_all
  then have "pct_change_col ?xs ! t = Num (p / q - 1)"
    using t(1) assms(4) q by (simp add: nth_pct_change_col fsub_def)
  then show ?thesis
    by (simp add: cell_pct_change [OF assms(2,3)])
qed

lemma fmul_defined:
  assumes "finite_or_nan x" and "finite_or_nan y"
  shows "(fmul x y = NaN) = (x = NaN \<or> y = NaN)"
    and "num_of (fmul x y) = num_of x * num_of y"
  using assms by (cases x; cases y; simp)+

text \<open>
  Claim C1.  Let \<open>W\<close> be the daily weight table \<open>generate_weights\<close> returns for the price
  table \<open>P\<close>, and \<open>r\<close> the percent change of \<open>P\<close>: undefined in the first row, and
  \<open>p\<^sub>t / p\<^sub>t\<^sub>-\<^sub>1 - 1\<close> where both prices are present.  For every timestamp \<open>t\<close> and
  asset \<open>a\<close> the asset PnL is the product of \<open>1 + W[s,a] * r[s,a]\<close> over the rows
  \<open>s \<le> t\<close>, minus 1, and the total PnL is the sum of the asset PnLs over the assets.  The
  rows where the weighted return is undefined, the first among them, are left out of the
  product, and the asset PnL itself is undefined in such a row; undefined asset PnLs are
  left out of the sum.
\<close>

theorem get_pnls_compounds_weighted_returns:
  assumes "valid_prices P" and "generate_weights g P = Inr W"
    and "t < length P" and "a < ncols P"
  shows "cell (fst (get_pnls P W)) t a =
           (if cell W t a = NaN \<or> cell (pct_change P) t a = NaN then NaN
            else Num ((\<Prod>s\<leftarrow>filter (\<lambda>s. cell W s a \<noteq> NaN \<and> cell (pct_change P) s a \<noteq> NaN)
                            [0..<Suc t].
                         1 + num_of (cell W s a) * num_of (cell (pct_change P) s a)) - 1))
       \<and> snd (get_pnls P W) ! t =
           (fst (P ! t),
            Num (\<Sum>b\<leftarrow>filter (\<lambda>b. cell (fst (get_pnls P W)) t b \<noteq> NaN) [0..<ncols P].
                   num_of (cell (fst (get_pnls P W)) t b)))
       \<and> cell (pct_change P) 0 a = NaN
       \<and> (\<forall>p q. 0 < t \<and> cell P t a = Num p \<and> cell P (t - 1) a = Num q \<longrightarrow>
             cell (pct_change P) t a = Num (p / q - 1))"
proof -
  let ?R = "pct_change P"
  let ?wr = "\<lambda>s. fmul (cell W s a) (cell ?R s a)"
  have table: "daily_table W P"
    by (rule generate_weights_daily_table [OF assms(2)])
  have fin: "finite_or_nan (cell W s a)" "finite_or_nan (cell ?R s a)" if "s < length P" for s
    using daily_table_row(4) [OF table that assms(4)]
      pct_change_finite_or_nan [OF assms(1) that assms(4)]
    by simp_all
  have defined: "(?wr s \<noteq> NaN) = (cell W s a \<noteq> NaN \<and> cell ?R s a \<noteq> NaN)"
    and product: "num_of (?wr s) = num_of (cell W s a) * num_of (cell ?R s a)"
    if "s < length P" for s
    using fmul_defined [OF fin [OF that]] by simp_all
  have "fst (get_pnls P W) ! t =
      (fst (P ! t),
       map (\<lambda>a. if fmul (cell W t a) (cell ?R t a) = NaN then NaN
                else Num ((\<Prod>s\<leftarrow>filter (\<lambda>s. fmul (cell W s a) (cell ?R s a) \<noteq> NaN) [0..<Suc t].
                             1 + num_of (fmul (cell W s a) (cell ?R s a))) - 1))
         [0..<ncols P])"
    by (rule asset_pnls_cells [OF assms(1) table assms(3)])
  then have "cell (fst (get_pnls P W)) t a =
      (if ?wr t = NaN then NaN
       else Num ((\<Prod>s\<leftarrow>filter (\<lambda>s. ?wr s \<noteq> NaN) [0..<Suc t]. 1 + num_of (?wr s)) - 1))"
    using assms(4) by (simp add: cell_def del: upt_Suc)
  moreover have "filter (\<lambda>s. ?wr s \<noteq> NaN) [0..<Suc t]
      = filter (\<lambda>s. cell W s a \<noteq> NaN \<and> cell ?R s a \<noteq> NaN) [0..<Suc t]"
    using assms(3) defined by (intro filter_cong) (simp_all del: upt_Suc)
  moreover have "map (\<lambda>s. 1 + num_of (?wr s))
        (filter (\<lambda>s. cell W s a \<noteq> NaN \<and> cell ?R s a \<noteq> NaN) [0..<Suc t])
      = map (\<lambda>s. 1 + num_of (cell W s a) * num_of (cell ?R s a))
        (filter (\<lambda>s. cell W s a \<noteq> NaN \<and> cell ?R s a \<noteq> NaN) [0..<Suc t])"
    using assms(3) product by (intro map_cong) (simp_all del: upt_Suc)
  moreover have "(?wr t = NaN) = (cell W t a = NaN \<or> cell ?R t a = NaN)"
    using defined [OF assms(3)] by blast
  ultimately have pnl: "cell (fst (get_pnls P W)) t a =
           (if cell W t a = NaN \<or> cell ?R t a = NaN then NaN
            else Num ((\<Prod>s\<leftarrow>filter (\<lambda>s. cell W s a \<noteq> NaN \<and> cell ?R s a \<noteq> NaN) [0..<Suc t].
                         1 + num_of (cell W s a) * num_of (cell ?R s a)) - 1))"
    by (simp only:)
  have total: "snd (get_pnls P W) ! t =
           (fst (P ! t),
            Num (\<Sum>b\<leftarrow>filter (\<lambda>b. cell (fst (get_pnls P W)) t b \<noteq> NaN) [0..<ncols P].
                   num_of (cell (fst (get_pnls P W)) t b)))"
    by (rule total_pnl_row [OF assms(1) table assms(3)])
  have "0 < length P" using assms(3) by (cases P) auto
  then have first: "cell ?R 0 a = NaN"
    using assms(4) by (simp add: cell_pct_change nth_pct_change_col length_col)
  have simple: "\<forall>p q. 0 < t \<and> cell P t a = Num p \<and> cell P (t - 1) a = Num q \<longrightarrow>
             cell ?R t a = Num (p / q - 1)"
    using pct_change_simple [OF assms(1,3,4)] by blast
  show ?thesis using pnl total first simple by (simp only: simp_thms)
qed

theorem get_pnls_compounds_weighted_returns_witness:
  "cell (fst (get_pnls prices_two_months
            [(10984, [Num 1, Num (- 1)]), (10987, [Num 1, Num (- 1)]),
             (10988, [Num (- 1), Num 1]), (10989, [Num (- 1), Num 1])])) 2 0 = Num (13 / 20)
   \<and> snd (get_pnls prices_two_months
            [(10984, [Num 1, Num (- 1)]), (10987, [Num 1, Num (- 1)]),
             (10988, [Num (- 1), Num 1]), (10989, [Num (- 1), Num 1])]) ! 2 = (10988, Num (13 / 20))
   \<and> cell (pct_change prices_two_months) 0 0 = NaN
   \<and> cell (pct_change prices_two_months) 2 0 = Num (55 / 110 - 1)"
proof -
  let ?P = "prices_two_months"
  let ?W = "[(10984, [Num 1, Num (- 1)]), (10987, [Num 1, Num (- 1)]),
             (10988, [Num (- 1), Num 1]), (10989, [Num (- 1), Num 1])]"
  have h1: "valid_prices ?P"
    by code_simp
  have h2: "generate_weights run_generator ?P = Inr ?W"
    by code_simp
  have h3: "2 < length ?P"
    by code_simp
  have h4: "0 < ncols ?P"
    by code_simp
  note T = get_pnls_compounds_weighted_returns [OF h1 h2 h3 h4]
  have e1: "(if cell ?W 2 0 = NaN \<or> cell (pct_change ?P) 2 0 = NaN then NaN
            else Num ((\<Prod>s\<leftarrow>filter (\<lambda>s. cell ?W s 0 \<noteq> NaN \<and> cell (pct_change ?P) s 0 \<noteq> NaN)
                            [0..<Suc 2].
                         1 + num_of (cell ?W s 0) * num_of (cell (pct_change ?P) s 0)) - 1))
          = Num (13 / 20)"
    by code_simp
  have e2: "(fst (?P ! 2),
            Num (\<Sum>b\<leftarrow>filter (\<lambda>b. cell (fst (get_pnls ?P ?W)) 2 b \<noteq> NaN) [0..<ncols ?P].
                   num_of (cell (fst (get_pnls ?P ?W)) 2 b)))
          = (10988, Num (13 / 20))"
    by code_simp
  have e3: "(0 :: nat) < 2 \<and> cell ?P 2 0 = Num 55 \<and> cell ?P (2 - 1) 0 = Num 110"
    by code_simp
  have "cell (fst (get_pnls ?P ?W)) 2 0 = Num (13 / 20)"
    using T [THEN conjunct1] by (simp only: e1)
  moreover have "snd (get_pnls ?P ?W) ! 2 = (10988, Num (13 / 20))"
    using T [THEN conjunct2, THEN conjunct1] by (simp only: e2)
  moreover have "cell (pct_change ?P) 0 0 = NaN"
    by (rule T [THEN conjunct2, THEN conjunct2, THEN conjunct1])
  moreover have "cell (pct_change ?P) 2 0 = Num (55 / 110 - 1)"
    using T [THEN conjunct2, THEN conjunct2, THEN conjunct2] e3 by blast
  ultimately show ?thesis by (simp only: simp_thms)
qed

end
